theory Spec2Isabelle
  imports Main "HOL-Library.Word"
begin

unbundle bit_operations_syntax

section \<open>Machine types, constants and data model\<close>

type_synonym u8 = "8 word"
type_synonym u16 = "16 word"
type_synonym u32 = "32 word"

datatype ThreadError =
    kThreadError_None
  | kThreadError_Busy
  | kThreadError_Abort
  | kThreadError_ChannelAccessFailure
  | kThreadError_NoAck
  | kThreadError_Failed

datatype PhyState = kStateDisabled | kStateSleep | kStateReceive | kStateTransmit

datatype tristateCache = tristate_disabled | tristate_enabled | tristate_uninit

text \<open>
  Ways in which a call does not return normally: it waits for ever on a mutex or a
  condition that nobody releases (\<open>Blocked\<close>), an \<open>assert\<close> aborts the process, the C
  code leaves the defined behaviour of the language, or a loop does not end.
\<close>

datatype fault = Blocked | AssertionFailed | UndefinedBehaviour | Diverges

text \<open>
  \<open>mPsdu\<close> of a \<open>RadioPacket\<close> is a pointer to one of the two static buffers;
  copying the struct (as the in-transit table does) copies the pointer only.
\<close>

datatype psdu_ref = TransmitPsdu | ReceivePsdu

record RadioPacket =
  mLength :: u8
  mPsdu :: psdu_ref
  mChannel :: u8
  mPower :: int
  mLqi :: u8
  mDirectTransmission :: bool
  mTransmitContext :: nat

text \<open>
  Byte arrays of the MAC parameter sets are lists. Bytes of a local struct that the
  source leaves uninitialised are not represented: \<open>Address\<close> and \<open>PANId\<close> of a request
  hold exactly the bytes that were copied into them.
\<close>

record FullAddr =
  AddressMode :: u8
  PANId :: "u8 list"
  Address :: "u8 list"

record SecSpec =
  SecurityLevel :: u8
  KeyIdMode :: u8
  KeySource :: "u8 list"
  KeyIndex :: u8

record MCPS_DATA_request_pset =
  SrcAddrMode :: u8
  Dst :: FullAddr
  MsduLength :: u8
  Msdu :: "u8 list"
  MsduHandle :: u8
  TxOptions :: u8

record MCPS_DATA_indication_pset =
  ind_Src :: FullAddr
  ind_Dst :: FullAddr
  ind_MsduLength :: u8
  ind_MpduLinkQuality :: u8
  ind_Msdu :: "u8 list"
  ind_Sec :: SecSpec

record MCPS_DATA_confirm_pset =
  conf_MsduHandle :: u8
  conf_Status :: u8

record MLME_SCAN_confirm_pset =
  scan_Status :: u8
  ResultListSize :: u8
  ResultList :: "u8 list"

record M_DeviceDescriptor =
  dd_PANId :: "u8 list"
  dd_ShortAddress :: "u8 list"
  dd_ExtAddress :: "u8 list"
  dd_FrameCounter :: "u8 list"
  dd_Exempt :: u8

record M_KeyDescriptor_thread =
  KeyIdLookupListEntries :: u8
  KeyDeviceListEntries :: u8
  KeyUsageListEntries :: u8
  Key :: "u8 list"
  LookupData :: "u8 list"
  LookupDataSizeCode :: u8
  flags :: "u8 list"

record otChildInfo =
  child_mExtAddress :: "u8 list"
  child_mRloc16 :: u16

record otRouterInfo =
  router_mExtAddress :: "u8 list"
  router_mRloc16 :: u16

datatype otDeviceRole =
    kDeviceRoleDisabled | kDeviceRoleDetached | kDeviceRoleChild
  | kDeviceRoleRouter | kDeviceRoleLeader

datatype pib_attribute =
    phyCurrentChannel | macPromiscuousMode | macDeviceTable | macDeviceTableEntries
  | macKeyTable | macKeyTableEntries

datatype set_value =
    Bytes "u8 list"
  | DeviceDescriptor M_DeviceDescriptor
  | KeyDescriptor M_KeyDescriptor_thread nat

text \<open>The argument of a scan callback: \<open>NULL\<close>, or a channel with its RSSI.\<close>

datatype scan_result = NullResult | EnergyResult u8 u8

text \<open>
  Every call that leaves the module, towards the co-processor or up into the stack, is
  recorded in order. The statuses and values that the co-processor returns are inputs
  of the operation that asks for them.
\<close>

datatype event =
    MLME_SET_request pib_attribute u8 set_value
  | MLME_GET_request pib_attribute u8
  | MLME_SCAN_request u8 u32 u8
  | MCPS_DATA_request MCPS_DATA_request_pset SecSpec
  | MLME_POLL_request FullAddr SecSpec
  | otPlatRadioTransmitDone bool ThreadError nat
  | otPlatRadioReceiveDone RadioPacket "u8 list" ThreadError
  | ActiveScanCallback nat nat scan_result
  | EnergyScanCallback nat nat scan_result
  | otSetKeySequenceCounter u32
  | otPlatLog_warn

record radio =
  sState :: PhyState
  sChannel :: u8
  sPromiscuousCache :: tristateCache
  sTransmitFrame :: RadioPacket
  sReceiveFrame :: RadioPacket
  sTransmitPsdu :: "u8 list"
  sReceivePsdu :: "u8 list"
  sTransmitError :: ThreadError
  sReceiveError :: ThreadError
  handle :: u8
  IntransitHandles :: "u8 list"
  IntransitPackets :: "RadioPacket list"
  intransit_mutex :: bool
  receiveFrame_mutex :: bool
  sActiveScanCallback :: nat
  sActiveScanContext :: nat
  sActiveScanInProgress :: u8
  sEnergyScanCallback :: nat
  sEnergyScanContext :: nat
  sEnergyScanInProgress :: u8
  sEnergyScanMask :: u32
  sCurDeviceTableSize :: u8
  noiseFloor :: int
  trace :: "event list"

definition emit :: "event \<Rightarrow> radio \<Rightarrow> radio" where
  "emit e s = s\<lparr>trace := trace s @ [e]\<rparr>"

definition MAX_INTRANSITS :: nat where
  "MAX_INTRANSITS = 7"


definition MAC_BASEHEADERLENGTH :: u8 where
  "MAC_BASEHEADERLENGTH = 3"

definition MAC_SC_SECURITYLEVEL :: "u8 \<Rightarrow> u8" where
  "MAC_SC_SECURITYLEVEL sc = sc AND 0x07"

definition MAC_SC_KEYIDMODE :: "u8 \<Rightarrow> u8" where
  "MAC_SC_KEYIDMODE sc = drop_bit 3 sc AND 0x03"

definition MAC_KEYIDMODE_SC :: "u8 \<Rightarrow> u8" where
  "MAC_KEYIDMODE_SC keyidmode = push_bit 3 (keyidmode AND 0x03)"

text \<open>
  Modelled from the spec: the header \<open>ieee_802_15_4.h\<close> of the co-processor API is not
  part of the sources. The frame-control layout is the one of the spec's scenarios
  (\<open>0x8861\<close> is data, ack-request, PAN-compression, short source and destination;
  \<open>0x8869\<close> adds security-enabled), addressing modes are none, reserved, short, extended
  in this order, and a PHY packet holds at most 127 bytes.
\<close>

definition MAC_FC_FT_MASK :: u16 where "MAC_FC_FT_MASK = 0x0007"
definition MAC_FC_FT_DATA :: u16 where "MAC_FC_FT_DATA = 0x0001"
definition MAC_FC_FT_COMMAND :: u16 where "MAC_FC_FT_COMMAND = 0x0003"
definition MAC_FC_SEC_ENA :: u16 where "MAC_FC_SEC_ENA = 0x0008"
definition MAC_FC_ACK_REQ :: u16 where "MAC_FC_ACK_REQ = 0x0020"
definition MAC_FC_PAN_COMP :: u16 where "MAC_FC_PAN_COMP = 0x0040"
definition MAC_FC_DAM :: "u16 \<Rightarrow> u8" where "MAC_FC_DAM fc = ucast (drop_bit 10 fc AND 0x3)"
definition MAC_FC_SAM :: "u16 \<Rightarrow> u8" where "MAC_FC_SAM fc = ucast (drop_bit 14 fc AND 0x3)"
definition MAC_MODE_SHORT_ADDR :: u8 where "MAC_MODE_SHORT_ADDR = 0x02"
definition MAC_MODE_LONG_ADDR :: u8 where "MAC_MODE_LONG_ADDR = 0x03"
definition aMaxPHYPacketSize :: u8 where "aMaxPHYPacketSize = 127"

text \<open>
  Status codes of the co-processor API, from the same absent header; the values are
  those of IEEE 802.15.4-2006. Only their being different from each other matters.
\<close>

definition MAC_SUCCESS :: u8 where "MAC_SUCCESS = 0x00"
definition MAC_CHANNEL_ACCESS_FAILURE :: u8 where "MAC_CHANNEL_ACCESS_FAILURE = 0xE1"
definition MAC_NO_ACK :: u8 where "MAC_NO_ACK = 0xE9"
definition MAC_NO_DATA :: u8 where "MAC_NO_DATA = 0xEB"
definition MAC_TRANSACTION_EXPIRED :: u8 where "MAC_TRANSACTION_EXPIRED = 0xF0"
definition MAC_TRANSACTION_OVERFLOW :: u8 where "MAC_TRANSACTION_OVERFLOW = 0xF1"
definition MAC_SCAN_IN_PROGRESS :: u8 where "MAC_SCAN_IN_PROGRESS = 0xFC"

definition GETLE16 :: "u8 list \<Rightarrow> u16" where
  "GETLE16 b = ucast (b ! 0) OR push_bit 8 (ucast (b ! 1))"

definition PUTLE16 :: "u16 \<Rightarrow> u8 list" where
  "PUTLE16 x = [ucast x, ucast (drop_bit 8 x)]"

text \<open>\<open>memcpy(dst + off, src, n)\<close> on a buffer \<open>dst\<close> that is long enough.\<close>

definition memcpy :: "u8 list \<Rightarrow> nat \<Rightarrow> u8 list \<Rightarrow> nat \<Rightarrow> u8 list" where
  "memcpy dst off src n = take off dst @ take n src @ drop (off + n) dst"

definition psdu_of :: "radio \<Rightarrow> psdu_ref \<Rightarrow> u8 list" where
  "psdu_of s r = (case r of TransmitPsdu \<Rightarrow> sTransmitPsdu s | ReceivePsdu \<Rightarrow> sReceivePsdu s)"

definition psdu_update :: "psdu_ref \<Rightarrow> u8 list \<Rightarrow> radio \<Rightarrow> radio" where
  "psdu_update r b s =
     (case r of TransmitPsdu \<Rightarrow> s\<lparr>sTransmitPsdu := b\<rparr> | ReceivePsdu \<Rightarrow> s\<lparr>sReceivePsdu := b\<rparr>)"

definition zero_packet :: RadioPacket where
  "zero_packet = \<lparr>mLength = 0, mPsdu = TransmitPsdu, mChannel = 0, mPower = 0, mLqi = 0,
     mDirectTransmission = False, mTransmitContext = 0\<rparr>"

text \<open>The static storage of the module after \<open>PlatformRadioInit\<close>.\<close>

definition radio_init :: radio where
  "radio_init = \<lparr>sState = kStateDisabled, sChannel = 0, sPromiscuousCache = tristate_uninit,
     sTransmitFrame = zero_packet\<lparr>mPsdu := TransmitPsdu\<rparr>,
     sReceiveFrame = zero_packet\<lparr>mPsdu := ReceivePsdu\<rparr>,
     sTransmitPsdu = replicate 127 0, sReceivePsdu = replicate 127 0,
     sTransmitError = kThreadError_None, sReceiveError = kThreadError_None,
     handle = 0, IntransitHandles = replicate 7 0, IntransitPackets = replicate 7 zero_packet,
     intransit_mutex = False, receiveFrame_mutex = False,
     sActiveScanCallback = 0, sActiveScanContext = 0, sActiveScanInProgress = 0,
     sEnergyScanCallback = 0, sEnergyScanContext = 0, sEnergyScanInProgress = 0,
     sEnergyScanMask = 0, sCurDeviceTableSize = 0, noiseFloor = 127, trace = []\<rparr>"

section \<open>Channel, radio state machine, promiscuous cache\<close>

definition setChannel :: "u8 \<Rightarrow> radio \<Rightarrow> radio" where
  "setChannel channel s =
     (if sChannel s \<noteq> channel
      then (emit (MLME_SET_request phyCurrentChannel 0 (Bytes [channel])) s)\<lparr>sChannel := channel\<rparr>
      else s)"

definition otPlatRadioEnable :: "radio \<Rightarrow> ThreadError \<times> radio" where
  "otPlatRadioEnable s =
     (if sState s = kStateSleep \<or> sState s = kStateDisabled
      then (kThreadError_None, s\<lparr>sState := kStateSleep\<rparr>)
      else (kThreadError_Busy, s))"

definition otPlatRadioDisable :: "radio \<Rightarrow> ThreadError \<times> radio" where
  "otPlatRadioDisable s =
     (if sState s = kStateDisabled \<or> sState s = kStateSleep
      then (kThreadError_None, s\<lparr>sState := kStateDisabled\<rparr>)
      else (kThreadError_Busy, s))"

definition otPlatRadioReceive :: "u8 \<Rightarrow> radio \<Rightarrow> ThreadError \<times> radio" where
  "otPlatRadioReceive aChannel s =
     (if sState s \<noteq> kStateDisabled
      then (kThreadError_None, setChannel aChannel (s\<lparr>sState := kStateReceive\<rparr>))
      else (kThreadError_Busy, s))"

text \<open>
  \<open>get_result\<close> is the byte that \<open>MLME_GET_request_sync\<close> stores in \<open>result\<close>; it is
  looked at only when the request is made.
\<close>

definition otPlatRadioGetPromiscuous :: "u8 \<Rightarrow> radio \<Rightarrow> bool \<times> radio" where
  "otPlatRadioGetPromiscuous get_result s =
     (if sPromiscuousCache s \<noteq> tristate_uninit
      then (sPromiscuousCache s = tristate_enabled, s)
      else
        let s1 = emit (MLME_GET_request macPromiscuousMode 0) s;
            result = (if get_result \<noteq> 0 then tristate_enabled else tristate_disabled)
        in (result = tristate_enabled, s1\<lparr>sPromiscuousCache := result\<rparr>))"

definition otPlatRadioSetPromiscuous :: "bool \<Rightarrow> radio \<Rightarrow> radio" where
  "otPlatRadioSetPromiscuous aEnable s =
     (let enable = (if aEnable then 1 else 0 :: u8);
          s1 = emit (MLME_SET_request macPromiscuousMode 0 (Bytes [enable])) s
      in s1\<lparr>sPromiscuousCache := (if aEnable then tristate_enabled else tristate_disabled)\<rparr>)"

section \<open>Scan requests\<close>

definition tab32 :: "u8 list" where
  "tab32 = [0, 9, 1, 10, 13, 21, 2, 29,
            11, 14, 16, 18, 22, 25, 3, 30,
            8, 12, 20, 28, 15, 17, 24, 7,
            19, 27, 23, 6, 26, 5, 4, 31]"

definition log2_32 :: "u32 \<Rightarrow> u8" where
  "log2_32 value0 =
     (let value1 = value0 OR drop_bit 1 value0;
          value2 = value1 OR drop_bit 2 value1;
          value3 = value2 OR drop_bit 4 value2;
          value4 = value3 OR drop_bit 8 value3;
          value5 = value4 OR drop_bit 16 value4
      in tab32 ! unat (drop_bit 27 (value5 * 0x07C4ACDD)))"

text \<open>
  The branch on \<open>aScanDuration\<close> shared by both scan requests; \<open>dflt\<close> is the exponent
  of the \<open>else\<close> branch (5 in the active scan, 6 in the energy scan). The quotient
  \<open>aScanDuration/15\<close> is computed on \<open>int\<close> and passed as a \<open>uint32_t\<close>.
\<close>

definition scan_exponent :: "u8 \<Rightarrow> u16 \<Rightarrow> u8" where
  "scan_exponent dflt aScanDuration =
     (if aScanDuration \<ge> 50
      then (let ScanDuration = log2_32 (ucast (aScanDuration div 15))
            in if ScanDuration > 14 then 14 else ScanDuration)
      else dflt)"

definition otPlatRadioActiveScan ::
  "u32 \<Rightarrow> u16 \<Rightarrow> nat \<Rightarrow> nat \<Rightarrow> u8 \<Rightarrow> radio \<Rightarrow> ThreadError \<times> radio" where
  "otPlatRadioActiveScan aScanChannels aScanDuration aCallback aCallbackContext scanRequest s =
     (if sActiveScanInProgress s \<noteq> 0 \<or> sEnergyScanInProgress s \<noteq> 0 then (kThreadError_Busy, s)
      else
        let ScanDuration = scan_exponent 5 aScanDuration;
            aScanChannels1 = (if aScanChannels = 0 then 0x07fff800 else aScanChannels);
            s1 = s\<lparr>sActiveScanCallback := aCallback, sActiveScanContext := aCallbackContext\<rparr>;
            s2 = emit (MLME_SCAN_request 1 aScanChannels1 ScanDuration) s1
        in if scanRequest = MAC_SUCCESS
           then (kThreadError_None, s2\<lparr>sActiveScanInProgress := 1\<rparr>)
           else (kThreadError_Busy, s2))"

definition otPlatRadioEnergyScan ::
  "u32 \<Rightarrow> u16 \<Rightarrow> nat \<Rightarrow> nat \<Rightarrow> u8 \<Rightarrow> radio \<Rightarrow> ThreadError \<times> radio" where
  "otPlatRadioEnergyScan aScanChannels aScanDuration aCallback aCallbackContext scanRequest s =
     (if sActiveScanInProgress s \<noteq> 0 \<or> sEnergyScanInProgress s \<noteq> 0 then (kThreadError_Busy, s)
      else
        let s0 = s\<lparr>sEnergyScanMask := aScanChannels\<rparr>;
            ScanDuration = scan_exponent 6 aScanDuration;
            aScanChannels1 = (if aScanChannels = 0 then 0x07fff800 else aScanChannels);
            s1 = s0\<lparr>sEnergyScanCallback := aCallback, sEnergyScanContext := aCallbackContext\<rparr>;
            s2 = emit (MLME_SCAN_request 0 aScanChannels1 ScanDuration) s1
        in if scanRequest = MAC_SUCCESS
           then (kThreadError_None, s2\<lparr>sEnergyScanInProgress := 1\<rparr>)
           else (kThreadError_Busy, s2))"

section \<open>In-transit table\<close>

text \<open>
  \<open>IntransitHandles\<close> and \<open>IntransitPackets\<close> are arrays of \<open>MAX_INTRANSITS\<close> elements;
  the loops over all indices are loops over the lists. Locking a mutex that is already
  held never returns, since every holder has left without releasing it.
\<close>

definition intransit_isHandleInUse :: "u8 \<Rightarrow> radio \<Rightarrow> fault + bool" where
  "intransit_isHandleInUse h s =
     (if intransit_mutex s then Inl Blocked
      else Inr (h \<in> set (IntransitHandles s)))"

text \<open>The index at which the \<open>while\<close> loop of \<open>intransit_putFrame\<close> breaks, if any.\<close>

fun empty_index :: "u8 list \<Rightarrow> nat option" where
  "empty_index [] = None"
| "empty_index (x # xs) = (if x = 0 then Some 0 else map_option Suc (empty_index xs))"

text \<open>
  The result is the returned \<open>int\<close>. The path that returns \<open>-1\<close> leaves the function
  without unlocking \<open>intransit_mutex\<close>.
\<close>

definition intransit_putFrame :: "u8 \<Rightarrow> RadioPacket \<Rightarrow> radio \<Rightarrow> fault + int \<times> radio" where
  "intransit_putFrame h pkt s =
     (if intransit_mutex s then Inl Blocked
      else case empty_index (IntransitHandles s) of
        None \<Rightarrow> Inr (- 1, s\<lparr>intransit_mutex := True\<rparr>)
      | Some i \<Rightarrow> Inr (0, s\<lparr>IntransitHandles := (IntransitHandles s)[i := h],
                              IntransitPackets := (IntransitPackets s)[i := pkt]\<rparr>))"

definition intransit_rmFrame :: "u8 \<Rightarrow> radio \<Rightarrow> fault + int \<times> radio" where
  "intransit_rmFrame h s =
     (if intransit_mutex s then Inl Blocked
      else if length (filter (\<lambda>x. x = h) (IntransitHandles s)) > 1 then Inl AssertionFailed
      else Inr (if h \<in> set (IntransitHandles s) then 0 else 1,
                s\<lparr>IntransitHandles := map (\<lambda>x. if x = h then 0 else x) (IntransitHandles s)\<rparr>))"

fun handle_index :: "u8 \<Rightarrow> u8 list \<Rightarrow> nat option" where
  "handle_index h [] = None"
| "handle_index h (x # xs) = (if x = h then Some 0 else map_option Suc (handle_index h xs))"

definition intransit_getFrame :: "u8 \<Rightarrow> radio \<Rightarrow> fault + RadioPacket option" where
  "intransit_getFrame h s =
     (if intransit_mutex s then Inl Blocked
      else Inr (map_option (\<lambda>i. IntransitPackets s ! i) (handle_index h (IntransitHandles s))))"

section \<open>Transmit: PHY frame to MCPS-DATA request\<close>

text \<open>
  \<open>while(intransit_isHandleInUse(handle)) handle++\<close>. After 256 rounds the handle and
  the table are what they were at the start, so a loop that has not ended by then
  never ends.
\<close>

fun skip_handles_in_use :: "nat \<Rightarrow> u8 \<Rightarrow> radio \<Rightarrow> fault + u8" where
  "skip_handles_in_use 0 h s = Inl Diverges"
| "skip_handles_in_use (Suc n) h s =
     (case intransit_isHandleInUse h s of
        Inl f \<Rightarrow> Inl f
      | Inr True \<Rightarrow> skip_handles_in_use n (h + 1) s
      | Inr False \<Rightarrow> Inr h)"

text \<open>Destination of the request and \<open>addressFieldLength\<close>, from the frame control.\<close>

definition tx_addressing :: "u16 \<Rightarrow> u8 list \<Rightarrow> FullAddr \<times> u8" where
  "tx_addressing frameControl psdu =
     (let sam = MAC_FC_SAM frameControl;
          dam = MAC_FC_DAM frameControl;
          isPanCompressed = (ucast (frameControl AND MAC_FC_PAN_COMP) :: u8);
          (dst, afl1) =
            (if dam = MAC_MODE_SHORT_ADDR
             then (\<lparr>AddressMode = dam, PANId = take 2 (drop 3 psdu), Address = take 2 (drop 5 psdu)\<rparr>,
                   4 :: u8)
             else if dam = MAC_MODE_LONG_ADDR
             then (\<lparr>AddressMode = dam, PANId = take 2 (drop 3 psdu), Address = take 8 (drop 5 psdu)\<rparr>,
                   10)
             else (\<lparr>AddressMode = dam, PANId = [], Address = []\<rparr>, 0));
          afl2 = (if sam = MAC_MODE_SHORT_ADDR then afl1 + 4
                  else if sam = MAC_MODE_LONG_ADDR then afl1 + 10 else afl1);
          afl3 = (if sam \<noteq> 0 \<and> isPanCompressed \<noteq> 0 then afl2 - 2 else afl2)
      in (dst, afl3))"

text \<open>Security spec of the request and \<open>headerLength\<close>.\<close>

definition tx_security :: "u16 \<Rightarrow> u8 list \<Rightarrow> u8 \<Rightarrow> SecSpec \<times> u8" where
  "tx_security frameControl psdu addressFieldLength =
     (if frameControl AND MAC_FC_SEC_ENA \<noteq> 0
      then
        let ASHloc = MAC_BASEHEADERLENGTH + addressFieldLength;
            securityControl = psdu ! unat ASHloc;
            level = MAC_SC_SECURITYLEVEL securityControl;
            kmode = MAC_SC_KEYIDMODE securityControl;
            ASHloc1 = ASHloc + 5;
            (ksrc, ASHloc2) =
              (if kmode = 0x02
               then (memcpy (replicate 8 0) 0 (drop (unat ASHloc1) psdu) 4, ASHloc1 + 4)
               else if kmode = 0x03
               then (memcpy (replicate 8 0) 0 (drop (unat ASHloc1) psdu) 8, ASHloc1 + 8)
               else (replicate 8 0, ASHloc1))
        in (\<lparr>SecurityLevel = level, KeyIdMode = kmode, KeySource = ksrc,
              KeyIndex = psdu ! unat ASHloc2\<rparr>, ASHloc2 + 1)
      else (\<lparr>SecurityLevel = 0, KeyIdMode = 0, KeySource = replicate 8 0, KeyIndex = 0\<rparr>,
            addressFieldLength + MAC_BASEHEADERLENGTH))"

text \<open>
  Table 95: \<open>footerLength = 2 << (SecurityLevel % 4)\<close>, a result of 2 replaced by 0,
  then \<open>footerLength += 2\<close>. The same three lines stand in the transmit and in the
  indication path.
\<close>

definition footerLength_of :: "u8 \<Rightarrow> u8" where
  "footerLength_of level =
     (let footerLength = (push_bit (unat (level mod 4)) 2 :: u8);
          footerLength1 = (if footerLength = 2 then 0 else footerLength)
      in footerLength1 + 2)"

text \<open>
  The \<open>do ... while(ret == 0xFF && (count++ < 10))\<close> loop around
  \<open>MLME_POLL_request_sync\<close>; \<open>poll_ret n\<close> is the status of the poll made when
  \<open>count\<close> is \<open>n\<close>.
\<close>

function poll_loop :: "nat \<Rightarrow> (nat \<Rightarrow> u8) \<Rightarrow> FullAddr \<Rightarrow> SecSpec \<Rightarrow> radio \<Rightarrow> u8 \<times> radio" where
  "poll_loop count poll_ret dst sec s =
     (let s1 = emit (MLME_POLL_request dst sec) s;
          ret = poll_ret count;
          s2 = (if count > 0 then emit otPlatLog_warn s1 else s1)
      in if ret = 0xFF \<and> count < 10 then poll_loop (count + 1) poll_ret dst sec s2
         else (ret, s2))"
  by pat_completeness auto
termination
  by (relation "measure (\<lambda>(count, _). 10 - count)") auto

definition otPlatRadioTransmit ::
  "nat \<Rightarrow> (nat \<Rightarrow> u8) \<Rightarrow> radio \<Rightarrow> fault + ThreadError \<times> radio" where
  "otPlatRadioTransmit transmitContext poll_ret s0 =
     (case skip_handles_in_use 256 (handle s0 + 1) s0 of
        Inl f \<Rightarrow> Inl f
      | Inr h \<Rightarrow>
        let s = s0\<lparr>handle := h\<rparr> in
        if sState s = kStateDisabled then Inr (kThreadError_Busy, s)
        else
          let psdu = psdu_of s (mPsdu (sTransmitFrame s));
              frameControl = GETLE16 psdu
          in
          if \<not> (frameControl AND MAC_FC_FT_MASK = MAC_FC_FT_DATA
                \<or> frameControl AND MAC_FC_FT_MASK = MAC_FC_FT_COMMAND)
          then Inr (kThreadError_Abort, emit otPlatLog_warn s)
          else
            let s1 = setChannel (mChannel (sTransmitFrame s))
                       (s\<lparr>sState := kStateTransmit, sTransmitError := kThreadError_None\<rparr>);
                TxOptions0 = (if frameControl AND MAC_FC_ACK_REQ \<noteq> 0 then 0x01 else 0x00 :: u8);
                TxOptions1 = TxOptions0 OR
                             (if mDirectTransmission (sTransmitFrame s1) then 0x00 else push_bit 2 1);
                (dst, addressFieldLength) = tx_addressing frameControl psdu
            in
            case (if frameControl AND MAC_FC_FT_MASK = MAC_FC_FT_DATA
                  then
                    let s1a = s1\<lparr>sTransmitFrame :=
                                 (sTransmitFrame s1)\<lparr>mTransmitContext := transmitContext\<rparr>\<rparr>
                    in map_sum id snd (intransit_putFrame h (sTransmitFrame s1a) s1a)
                  else Inr s1) of
              Inl f \<Rightarrow> Inl f
            | Inr s2 \<Rightarrow>
              let (curSecSpec, headerLength) = tx_security frameControl psdu addressFieldLength in
              if frameControl AND MAC_FC_FT_MASK = MAC_FC_FT_DATA
              then
                let footerLength = footerLength_of (SecurityLevel curSecSpec);
                    msduLength = mLength (sTransmitFrame s2) - footerLength - headerLength
                in
                if unat headerLength + unat msduLength > length psdu then Inl UndefinedBehaviour
                else
                  Inr (kThreadError_None,
                       emit (MCPS_DATA_request
                               \<lparr>SrcAddrMode = MAC_FC_SAM frameControl, Dst = dst,
                                MsduLength = msduLength,
                                Msdu = take (unat msduLength) (drop (unat headerLength) psdu),
                                MsduHandle = h, TxOptions = TxOptions1\<rparr>
                               curSecSpec) s2)
              else
                if psdu ! unat headerLength = 0x04
                then
                  let (ret, s3) = poll_loop 0 poll_ret dst curSecSpec s2 in
                  if ret = MAC_SUCCESS
                  then Inr (kThreadError_None,
                            emit (otPlatRadioTransmitDone True kThreadError_None transmitContext) s3)
                  else if ret = MAC_NO_DATA
                  then Inr (kThreadError_None,
                            emit (otPlatRadioTransmitDone False kThreadError_None transmitContext) s3)
                  else Inr (kThreadError_None,
                            emit (otPlatRadioTransmitDone False kThreadError_NoAck transmitContext) s3)
                else Inl AssertionFailed)"

section \<open>Confirms and the receive slot\<close>

definition PlatformRadioSignal :: "radio \<Rightarrow> fault + int \<times> radio" where
  "PlatformRadioSignal s =
     (if receiveFrame_mutex s then Inl Blocked
      else Inr (0, s\<lparr>sReceiveFrame := (sReceiveFrame s)\<lparr>mLength := 0\<rparr>\<rparr>))"

text \<open>
  The barrier around the stack callbacks is a rendezvous with the main loop and is not
  represented: the handlers run one at a time. \<open>ifup\<close> is \<open>otIsInterfaceUp\<close>.
\<close>

definition confirm_error :: "u8 \<Rightarrow> ThreadError" where
  "confirm_error status =
     (if status = MAC_CHANNEL_ACCESS_FAILURE then kThreadError_ChannelAccessFailure
      else if status = MAC_NO_ACK \<or> status = MAC_TRANSACTION_OVERFLOW then kThreadError_NoAck
      else if status = MAC_TRANSACTION_EXPIRED then kThreadError_NoAck
      else kThreadError_Abort)"

definition handleDataConfirm :: "MCPS_DATA_confirm_pset \<Rightarrow> bool \<Rightarrow> radio \<Rightarrow> fault + int \<times> radio" where
  "handleDataConfirm params ifup s =
     (if \<not> ifup then Inr (1, s)
      else case intransit_getFrame (conf_MsduHandle params) s of
        Inl f \<Rightarrow> Inl f
      | Inr None \<Rightarrow> Inl AssertionFailed
      | Inr (Some sentFrame) \<Rightarrow>
        let s1 =
          (if conf_Status params = MAC_SUCCESS
           then (emit (otPlatRadioTransmitDone False (sTransmitError s) (mTransmitContext sentFrame)) s)
                  \<lparr>sState := kStateReceive, sTransmitError := kThreadError_None\<rparr>
           else
             let e = confirm_error (conf_Status params);
                 sa = emit otPlatLog_warn (s\<lparr>sTransmitError := e\<rparr>)
             in (emit (otPlatRadioTransmitDone False e (mTransmitContext sentFrame)) sa)
                  \<lparr>sState := kStateReceive, sTransmitError := kThreadError_None\<rparr>)
        in case intransit_rmFrame (conf_MsduHandle params) s1 of
             Inl f \<Rightarrow> Inl f
           | Inr (r, s2) \<Rightarrow> PlatformRadioSignal s2)"

section \<open>Receive: MCPS-DATA indication to PHY frame\<close>

text \<open>
  Destination fields written to the buffer, with \<open>addressFieldLength\<close> after them.
\<close>

definition rx_destination :: "FullAddr \<Rightarrow> u8 list \<Rightarrow> u8 list \<times> u8" where
  "rx_destination dst psdu =
     (if AddressMode dst = MAC_MODE_SHORT_ADDR
      then (memcpy (memcpy psdu 5 (Address dst) 2) 3 (PANId dst) 2, 4)
      else if AddressMode dst = MAC_MODE_LONG_ADDR
      then (memcpy (memcpy psdu 5 (Address dst) 8) 3 (PANId dst) 2, 10)
      else (psdu, 0))"

text \<open>
  Source fields; the third component tells whether the PAN-compression branch was
  taken (\<open>memcmp\<close> of the two PAN identifiers returned 0).
\<close>

definition rx_source :: "FullAddr \<Rightarrow> FullAddr \<Rightarrow> u8 list \<Rightarrow> u8 \<Rightarrow> u8 list \<times> u8 \<times> bool" where
  "rx_source src dst psdu addressFieldLength =
     (let afl = unat addressFieldLength in
      if take 2 (PANId src) \<noteq> take 2 (PANId dst)
      then
        (if AddressMode src = MAC_MODE_SHORT_ADDR
         then (memcpy (memcpy psdu (afl + 5) (Address src) 2) (afl + 3) (PANId src) 2,
               addressFieldLength + 4, False)
         else if AddressMode src = MAC_MODE_LONG_ADDR
         then (memcpy (memcpy psdu (afl + 5) (Address src) 8) (afl + 3) (PANId src) 2,
               addressFieldLength + 10, False)
         else (psdu, addressFieldLength, False))
      else
        (if AddressMode src = MAC_MODE_SHORT_ADDR
         then (memcpy psdu (afl + 3) (Address src) 2, addressFieldLength + 2, True)
         else if AddressMode src = MAC_MODE_LONG_ADDR
         then (memcpy psdu (afl + 3) (Address src) 8, addressFieldLength + 8, True)
         else (psdu, addressFieldLength, True)))"

text \<open>The auxiliary security header written to the buffer, and \<open>headerLength\<close>.\<close>

definition rx_security :: "u16 \<Rightarrow> SecSpec \<Rightarrow> u8 list \<Rightarrow> u8 \<Rightarrow> u8 list \<times> u8" where
  "rx_security frameControl curSecSpec psdu addressFieldLength =
     (if frameControl AND MAC_FC_SEC_ENA \<noteq> 0
      then
        let ASHloc = MAC_BASEHEADERLENGTH + addressFieldLength;
            securityControl = MAC_SC_SECURITYLEVEL (SecurityLevel curSecSpec)
                              OR MAC_KEYIDMODE_SC (KeyIdMode curSecSpec);
            psdu1 = psdu[unat ASHloc := securityControl];
            ASHloc1 = ASHloc + 5;
            (psdu2, ASHloc2) =
              (if KeyIdMode curSecSpec = 0x02
               then (memcpy psdu1 (unat ASHloc1) (KeySource curSecSpec) 4, ASHloc1 + 4)
               else if KeyIdMode curSecSpec = 0x03
               then (memcpy psdu1 (unat ASHloc1) (KeySource curSecSpec) 8, ASHloc1 + 8)
               else (psdu1, ASHloc1))
        in (psdu2[unat ASHloc2 := KeyIndex curSecSpec], ASHloc2 + 1)
      else (psdu, addressFieldLength + MAC_BASEHEADERLENGTH))"

text \<open>
  The header of the frame built from an indication: the buffer, the frame control and
  \<open>headerLength\<close>.
\<close>

definition rx_header :: "MCPS_DATA_indication_pset \<Rightarrow> u8 list \<Rightarrow> u8 list \<times> u16 \<times> u8" where
  "rx_header params psdu =
     (let curSecSpec = ind_Sec params;
          frameControl0 =
            push_bit 14 (ucast (AddressMode (ind_Src params) AND 0x3))
            OR push_bit 10 (ucast (AddressMode (ind_Dst params) AND 0x3))
            OR (if SecurityLevel curSecSpec \<noteq> 0 then MAC_FC_SEC_ENA else 0)
            OR MAC_FC_FT_DATA;
          (psdu1, afl1) = rx_destination (ind_Dst params) psdu;
          (psdu2, afl2, compressed) = rx_source (ind_Src params) (ind_Dst params) psdu1 afl1;
          frameControl = (if compressed then frameControl0 OR MAC_FC_PAN_COMP else frameControl0);
          psdu3 = memcpy psdu2 0 (PUTLE16 frameControl) 2;
          (psdu4, headerLength) = rx_security frameControl curSecSpec psdu3 afl2
      in (psdu4, frameControl, headerLength))"

text \<open>\<open>(MpduLinkQuality - 256)/2\<close> on \<open>int\<close>; the quotient of C rounds towards zero.\<close>

definition rssi_of_lqi :: "u8 \<Rightarrow> int" where
  "rssi_of_lqi lqi = - ((256 - uint lqi) div 2)"

text \<open>
  A handler that finds the receive slot occupied, or \<open>receiveFrame_mutex\<close> held, does
  not go on until another thread frees it. The path that rejects an over-long frame
  returns after \<open>mLength\<close> has been assigned and before the mutex is unlocked.
\<close>

definition handleDataIndication ::
  "MCPS_DATA_indication_pset \<Rightarrow> bool \<Rightarrow> radio \<Rightarrow> fault + int \<times> radio" where
  "handleDataIndication params ifup s =
     (if \<not> ifup then Inr (1, s)
      else if receiveFrame_mutex s then Inl Blocked
      else if mLength (sReceiveFrame s) \<noteq> 0 then Inl Blocked
      else
        let s0 = s\<lparr>receiveFrame_mutex := True\<rparr>;
            r = mPsdu (sReceiveFrame s0);
            (psdu, frameControl, headerLength) = rx_header params (psdu_of s0 r);
            footerLength = footerLength_of (SecurityLevel (ind_Sec params));
            s1 = psdu_update r psdu s0;
            s2 = s1\<lparr>sReceiveFrame := (sReceiveFrame s1)
                    \<lparr>mLength := ind_MsduLength params + footerLength + headerLength\<rparr>\<rparr>
        in
        if mLength (sReceiveFrame s2) > aMaxPHYPacketSize
        then Inr (1, emit otPlatLog_warn s2)
        else if unat headerLength + unat (ind_MsduLength params) > length psdu
        then Inl UndefinedBehaviour
        else
          let psdu5 = memcpy psdu (unat headerLength) (ind_Msdu params)
                        (unat (ind_MsduLength params));
              s3 = psdu_update r psdu5 s2;
              s4 = s3\<lparr>sReceiveFrame := (sReceiveFrame s3)
                      \<lparr>mLqi := ind_MpduLinkQuality params, mChannel := sChannel s3,
                       mPower := rssi_of_lqi (ind_MpduLinkQuality params)\<rparr>\<rparr>;
              s5 = s4\<lparr>noiseFloor := mPower (sReceiveFrame s4), receiveFrame_mutex := False\<rparr>;
              s6 = s5\<lparr>sState := kStateReceive\<rparr>;
              s7 = emit (otPlatRadioReceiveDone (sReceiveFrame s6)
                           (psdu_of s6 (mPsdu (sReceiveFrame s6))) (sReceiveError s6)) s6
          in PlatformRadioSignal s7)"

section \<open>Scan confirm\<close>

text \<open>
  The inner \<open>while(!(sEnergyScanMask & 1 << curMinChannel))\<close> loop, on the mask and
  \<open>curMinChannel\<close>. \<open>1 << curMinChannel\<close> is a shift of the \<open>int\<close> 1, which is undefined
  from 31 on.
\<close>

function energy_skip :: "u32 \<Rightarrow> u8 \<Rightarrow> fault + u32 \<times> u8" where
  "energy_skip mask0 curMinChannel =
     (if unat curMinChannel \<ge> 31 then Inl UndefinedBehaviour
      else if mask0 AND push_bit (unat curMinChannel) 1 = 0
      then energy_skip (mask0 AND (mask0 - 1)) (curMinChannel + 1)
      else Inr (mask0, curMinChannel))"
  by pat_completeness auto
termination
proof (relation "measure (\<lambda>(m, c). 31 - unat c)")
  show "wf (measure (\<lambda>(m :: u32, c :: u8). 31 - unat c))"
    by simp
next
  fix mask0 :: u32 and curMinChannel :: u8
  assume "\<not> 31 \<le> unat curMinChannel"
  then have "unat (curMinChannel + 1) = unat curMinChannel + 1"
    by (simp add: unat_word_ariths)
  with \<open>\<not> 31 \<le> unat curMinChannel\<close>
  show "((mask0 AND (mask0 - 1), curMinChannel + 1), (mask0, curMinChannel))
          \<in> measure (\<lambda>(m, c). 31 - unat c)"
    by simp
qed

text \<open>
  The \<open>for\<close> loop over the result list, \<open>n\<close> rounds to go. Its body assigns the RSSI
  and the channel to a local \<open>result\<close> that is not used afterwards and calls nothing;
  what it leaves behind is the mask and \<open>curMinChannel\<close>.
\<close>

fun energy_results :: "nat \<Rightarrow> u32 \<Rightarrow> u8 \<Rightarrow> fault + u32 \<times> u8" where
  "energy_results 0 mask0 curMinChannel = Inr (mask0, curMinChannel)"
| "energy_results (Suc n) mask0 curMinChannel =
     (case energy_skip mask0 curMinChannel of
        Inl f \<Rightarrow> Inl f
      | Inr (mask1, ch1) \<Rightarrow> energy_results n mask1 ch1)"

definition handleScanConfirm :: "MLME_SCAN_confirm_pset \<Rightarrow> bool \<Rightarrow> radio \<Rightarrow> fault + int \<times> radio" where
  "handleScanConfirm params ifup s =
     (if \<not> ifup then Inr (1, s)
      else if scan_Status params \<noteq> MAC_SCAN_IN_PROGRESS
      then
        (if sActiveScanInProgress s \<noteq> 0
         then
           let s1 = emit (ActiveScanCallback (sActiveScanCallback s) (sActiveScanContext s) NullResult) s;
               s2 = s1\<lparr>sActiveScanInProgress := 0\<rparr>
           in Inr (0, emit (MLME_SET_request phyCurrentChannel 0 (Bytes [sChannel s2])) s2)
         else if sEnergyScanInProgress s \<noteq> 0
         then
           (case energy_results (unat (ResultListSize params)) (sEnergyScanMask s) 11 of
              Inl f \<Rightarrow> Inl f
            | Inr (mask1, ch1) \<Rightarrow>
              let s1 = s\<lparr>sEnergyScanMask := mask1\<rparr>;
                  s2 = emit (EnergyScanCallback (sEnergyScanCallback s1) (sActiveScanContext s1)
                               NullResult) s1;
                  s3 = s2\<lparr>sEnergyScanInProgress := 0\<rparr>
              in Inr (0, emit (MLME_SET_request phyCurrentChannel 0 (Bytes [sChannel s3])) s3))
         else Inr (0, s))
      else Inr (0, s))"

section \<open>Device and key table synchronisation\<close>

text \<open>
  Constants of headers that are not part of the sources: the state-change flags of the
  stack and the key-usage encoding of the co-processor API. They are parameters.
\<close>

record header_consts =
  OT_NET_KEY_SEQUENCE :: u32
  OT_THREAD_CHILD_ADDED :: u32
  OT_THREAD_CHILD_REMOVED :: u32
  OT_NET_ROLE :: u32
  OT_THREAD_LINK_ACCEPT :: u32
  KUD_FrameTypeMask :: u8
  KUD_CommandFrameIdentifierShift :: nat
  KUD_CommandFrameIdentifierMask :: u8
  CMD_DATA_REQ :: u8

text \<open>
  What the stack answers while the callback runs: the key sequence counter, the role,
  the PAN id, the child table by index, the router neighbours, the parent (\<open>None\<close> when
  \<open>otGetParentInfo\<close> fails) and the MAC key of a key sequence.
\<close>

record ot_stack =
  ot_KeySequenceCounter :: u32
  ot_DeviceRole :: otDeviceRole
  ot_PanId :: u16
  ot_ChildInfoByIndex :: "u8 \<Rightarrow> otChildInfo"
  ot_NeighborRouters :: "otRouterInfo list"
  ot_ParentInfo :: "otRouterInfo option"
  ot_MacKeyFromSequenceCounter :: "u32 \<Rightarrow> u8 list"

text \<open>
  Modelled from the spec: \<open>otGetNeighborRouterInfo\<close> is an addition to the stack that is
  not part of the sources. It fills the array with router neighbours, at most
  \<open>maxRouters\<close> of them ("append up to (5 - children) router neighbors").
\<close>

definition otGetNeighborRouterInfo :: "ot_stack \<Rightarrow> u8 \<Rightarrow> otRouterInfo list" where
  "otGetNeighborRouterInfo ot maxRouters = take (unat maxRouters) (ot_NeighborRouters ot)"

text \<open>
  The device descriptor that the three branches build from a PAN id, an RLOC16 and an
  extended address in the stack's byte order.
\<close>

definition device_descriptor :: "u16 \<Rightarrow> u16 \<Rightarrow> u8 list \<Rightarrow> M_DeviceDescriptor" where
  "device_descriptor panid rloc16 m8 =
     \<lparr>dd_PANId = PUTLE16 panid, dd_ShortAddress = PUTLE16 rloc16,
      dd_ExtAddress = map (\<lambda>j. m8 ! (7 - j)) [0..<8],
      dd_FrameCounter = [0, 0, 0, 0], dd_Exempt = 0\<rparr>"

text \<open>The loop over the child indices; the state of the loop is \<open>count\<close> and the radio.\<close>

fun sync_children :: "ot_stack \<Rightarrow> u8 list \<Rightarrow> u8 \<Rightarrow> radio \<Rightarrow> u8 \<times> radio" where
  "sync_children ot [] count s = (count, s)"
| "sync_children ot (i # is) count s =
     (let tChildInfo = ot_ChildInfoByIndex ot i;
          isValid = list_ex (\<lambda>j. child_mExtAddress tChildInfo ! j \<noteq> 0) [0..<8]
      in if \<not> isValid then sync_children ot is count s
         else sync_children ot is (count + 1)
                (emit (MLME_SET_request macDeviceTable count
                         (DeviceDescriptor (device_descriptor (ot_PanId ot)
                            (child_mRloc16 tChildInfo) (child_mExtAddress tChildInfo)))) s))"

fun sync_routers :: "ot_stack \<Rightarrow> otRouterInfo list \<Rightarrow> u8 \<Rightarrow> radio \<Rightarrow> u8 \<times> radio" where
  "sync_routers ot [] count s = (count, s)"
| "sync_routers ot (r # rs) count s =
     sync_routers ot rs (count + 1)
       (emit (MLME_SET_request macDeviceTable count
                (DeviceDescriptor (device_descriptor (ot_PanId ot)
                   (router_mRloc16 r) (router_mExtAddress r)))) s)"

text \<open>
  The key descriptor as it is sent: \<open>flags\<close> holds the \<open>count\<close> device entries followed
  by the two usage entries, the bytes of the array that the length of the request
  covers.
\<close>

definition key_descriptor :: "header_consts \<Rightarrow> ot_stack \<Rightarrow> u8 \<Rightarrow> u32 \<Rightarrow> M_KeyDescriptor_thread" where
  "key_descriptor hc ot count seq =
     \<lparr>KeyIdLookupListEntries = 1, KeyDeviceListEntries = count, KeyUsageListEntries = 2,
      Key = take 16 (ot_MacKeyFromSequenceCounter ot seq),
      LookupData = (replicate 9 0)[8 := 0xFF, 0 := ucast ((seq AND 0x7F) + 1)],
      LookupDataSizeCode = 1,
      flags = map of_nat [0..<unat count]
              @ [ucast MAC_FC_FT_DATA AND KUD_FrameTypeMask hc,
                 (ucast MAC_FC_FT_COMMAND AND KUD_FrameTypeMask hc)
                 OR (push_bit (KUD_CommandFrameIdentifierShift hc) (CMD_DATA_REQ hc)
                     AND KUD_CommandFrameIdentifierMask hc)]\<rparr>"

text \<open>The loop that stores the keys of three consecutive key sequences.\<close>

fun sync_keys :: "header_consts \<Rightarrow> ot_stack \<Rightarrow> u8 \<Rightarrow> u32 \<Rightarrow> u8 list \<Rightarrow> u8 \<Rightarrow> radio \<Rightarrow> u8 \<times> radio" where
  "sync_keys hc ot count tKeySeq [] storeCount s = (storeCount, s)"
| "sync_keys hc ot count tKeySeq (i # is) storeCount s =
     (if tKeySeq + ucast i > 0
      then sync_keys hc ot count tKeySeq is (storeCount + 1)
             (emit (MLME_SET_request macKeyTable storeCount
                      (KeyDescriptor (key_descriptor hc ot count (tKeySeq + ucast i))
                         (5 - unat count))) s)
      else sync_keys hc ot count tKeySeq is storeCount s)"

definition keyChangeCallback :: "header_consts \<Rightarrow> ot_stack \<Rightarrow> u32 \<Rightarrow> radio \<Rightarrow> radio" where
  "keyChangeCallback hc ot aFlags s =
     (if aFlags AND (OT_NET_KEY_SEQUENCE hc OR OT_THREAD_CHILD_ADDED hc
                     OR OT_THREAD_CHILD_REMOVED hc OR OT_NET_ROLE hc
                     OR OT_THREAD_LINK_ACCEPT hc) \<noteq> 0
      then
        let (seq, s0) = (if ot_KeySequenceCounter ot = 0
                         then (2, emit (otSetKeySequenceCounter 2) s)
                         else (ot_KeySequenceCounter ot, s));
            tKeySeq = seq - 1;
            (count, s1) =
              (if ot_DeviceRole ot \<noteq> kDeviceRoleChild
               then
                 let (count1, sa) = sync_children ot [0, 1, 2, 3, 4] 0 s0;
                     maxRouters = 5 - count1;
                     routers = otGetNeighborRouterInfo ot maxRouters
                 in sync_routers ot routers count1 sa
               else
                 (case ot_ParentInfo ot of
                    Some tParentInfo \<Rightarrow>
                      (1, emit (MLME_SET_request macDeviceTable 0
                                  (DeviceDescriptor (device_descriptor (ot_PanId ot)
                                     (router_mRloc16 tParentInfo)
                                     (router_mExtAddress tParentInfo)))) s0)
                  | None \<Rightarrow> (0, emit otPlatLog_warn s0)));
            s2 = emit (MLME_SET_request macDeviceTableEntries 0 (Bytes [count])) s1;
            s3 = s2\<lparr>sCurDeviceTableSize := count\<rparr>;
            (storeCount, s4) = sync_keys hc ot count tKeySeq [0, 1, 2] 0 s3
        in emit (MLME_SET_request macKeyTableEntries 0 (Bytes [storeCount])) s4
      else s)"

section \<open>Definitions used to state the properties\<close>

subsection \<open>Scan duration\<close>

text \<open>
  The specification's \<open>clamp(log2(ms / 15), 0, 14)\<close> in integer arithmetic: \<open>ilog2\<close> is
  the position of the highest set bit, \<open>clamp x lo hi\<close> limits \<open>x\<close> to the range from \<open>lo\<close>
  to \<open>hi\<close>.
\<close>

fun ilog2 :: "nat \<Rightarrow> nat" where
  "ilog2 n = (if n < 2 then 0 else Suc (ilog2 (n div 2)))"

declare ilog2.simps [simp del]

definition clamp :: "nat \<Rightarrow> nat \<Rightarrow> nat \<Rightarrow> nat" where
  "clamp x lo hi = max lo (min hi x)"

text \<open>The five shift-and-or lines of \<open>log2_32\<close> on their own.\<close>

definition smear :: "u32 \<Rightarrow> u32" where
  "smear value0 =
     (let value1 = value0 OR drop_bit 1 value0;
          value2 = value1 OR drop_bit 2 value1;
          value3 = value2 OR drop_bit 4 value2;
          value4 = value3 OR drop_bit 8 value3
      in value4 OR drop_bit 16 value4)"

subsection \<open>Radio state machine\<close>

text \<open>The four operations that the state machine gates, with their arguments.\<close>

datatype radio_op = op_enable | op_disable | op_receive u8 | op_transmit nat "nat \<Rightarrow> u8"

fun radio_call :: "radio_op \<Rightarrow> radio \<Rightarrow> fault + ThreadError \<times> radio" where
  "radio_call op_enable s = Inr (otPlatRadioEnable s)"
| "radio_call op_disable s = Inr (otPlatRadioDisable s)"
| "radio_call (op_receive aChannel) s = Inr (otPlatRadioReceive aChannel s)"
| "radio_call (op_transmit transmitContext poll_ret) s = otPlatRadioTransmit transmitContext poll_ret s"



subsection \<open>Example frames and states\<close>

text \<open>
  Scenario 1 of the specification: frame control \<open>0x8861\<close>, sequence number 7,
  destination PAN \<open>0xFACE\<close>, destination \<open>0x0001\<close>, source \<open>0x0002\<close>, payload
  \<open>AA BB CC\<close>, no security; 9 bytes of header, 3 of payload, 2 of FCS.
\<close>

definition scenario1_psdu :: "u8 list" where
  "scenario1_psdu =
     [0x61, 0x88, 0x07, 0xCE, 0xFA, 0x01, 0x00, 0x02, 0x00, 0xAA, 0xBB, 0xCC] @ replicate 115 0"

definition no_poll :: "nat \<Rightarrow> u8" where
  "no_poll n = 0"

definition scenario1_state :: radio where
  "scenario1_state = radio_init\<lparr>sState := kStateSleep, sTransmitPsdu := scenario1_psdu,
     sTransmitFrame := (sTransmitFrame radio_init)
       \<lparr>mLength := 14, mChannel := 11, mDirectTransmission := True\<rparr>\<rparr>"

subsection \<open>What the transmit path computes from the transmit frame\<close>

text \<open>
  The values that \<open>otPlatRadioTransmit\<close> derives from the frame in the transmit buffer,
  named so that properties can speak about them: the buffer, the frame control, the
  security spec, \<open>headerLength\<close>, \<open>MsduLength\<close> and the parameter set of the request.
  \<open>tx_fits\<close> says that the payload copy stays inside the buffer.
\<close>

definition tx_psdu :: "radio \<Rightarrow> u8 list" where
  "tx_psdu s = psdu_of s (mPsdu (sTransmitFrame s))"

definition tx_frameControl :: "radio \<Rightarrow> u16" where
  "tx_frameControl s = GETLE16 (tx_psdu s)"

definition tx_is_data :: "radio \<Rightarrow> bool" where
  "tx_is_data s = (tx_frameControl s AND MAC_FC_FT_MASK = MAC_FC_FT_DATA)"

definition tx_addressFieldLength :: "radio \<Rightarrow> u8" where
  "tx_addressFieldLength s = snd (tx_addressing (tx_frameControl s) (tx_psdu s))"

definition tx_secSpec :: "radio \<Rightarrow> SecSpec" where
  "tx_secSpec s = fst (tx_security (tx_frameControl s) (tx_psdu s) (tx_addressFieldLength s))"

definition tx_headerLength :: "radio \<Rightarrow> u8" where
  "tx_headerLength s = snd (tx_security (tx_frameControl s) (tx_psdu s) (tx_addressFieldLength s))"

definition tx_msduLength :: "radio \<Rightarrow> u8" where
  "tx_msduLength s =
     mLength (sTransmitFrame s) - footerLength_of (SecurityLevel (tx_secSpec s)) - tx_headerLength s"

definition tx_fits :: "radio \<Rightarrow> bool" where
  "tx_fits s = (unat (tx_headerLength s) + unat (tx_msduLength s) \<le> length (tx_psdu s))"

definition tx_request :: "u8 \<Rightarrow> radio \<Rightarrow> MCPS_DATA_request_pset" where
  "tx_request h s =
     \<lparr>SrcAddrMode = MAC_FC_SAM (tx_frameControl s),
      Dst = fst (tx_addressing (tx_frameControl s) (tx_psdu s)),
      MsduLength = tx_msduLength s,
      Msdu = take (unat (tx_msduLength s)) (drop (unat (tx_headerLength s)) (tx_psdu s)),
      MsduHandle = h,
      TxOptions = (if tx_frameControl s AND MAC_FC_ACK_REQ \<noteq> 0 then 0x01 else 0x00)
                  OR (if mDirectTransmission (sTransmitFrame s) then 0x00 else push_bit 2 1)\<rparr>"

subsection \<open>In-transit table\<close>

text \<open>
  The live handles are the non-zero entries of \<open>IntransitHandles\<close>. A table is in order
  when both arrays have \<open>MAX_INTRANSITS\<close> elements and no live handle occurs twice.
\<close>

definition live_handles :: "radio \<Rightarrow> u8 list" where
  "live_handles s = filter (\<lambda>h. h \<noteq> 0) (IntransitHandles s)"

definition table_ok :: "radio \<Rightarrow> bool" where
  "table_ok s \<longleftrightarrow> length (IntransitHandles s) = MAX_INTRANSITS
     \<and> length (IntransitPackets s) = MAX_INTRANSITS \<and> distinct (live_handles s)"

text \<open>
  What can happen to the module, one event at a time: the stack fills the transmit
  buffer it got from \<open>otPlatRadioGetTransmitBuffer\<close>, the stack calls an operation, the
  co-processor delivers a confirm or an indication (with the interface up).
\<close>

datatype action =
    StackWritesFrame u8 u8 bool "u8 list"
  | Call radio_op
  | DataConfirm MCPS_DATA_confirm_pset
  | DataIndication MCPS_DATA_indication_pset

definition stack_writes_frame :: "u8 \<Rightarrow> u8 \<Rightarrow> bool \<Rightarrow> u8 list \<Rightarrow> radio \<Rightarrow> radio" where
  "stack_writes_frame len channel direct bytes s =
     (let r = mPsdu (sTransmitFrame s);
          s1 = psdu_update r (memcpy (psdu_of s r) 0 bytes (min (length bytes) (length (psdu_of s r)))) s
      in s1\<lparr>sTransmitFrame := (sTransmitFrame s1)
              \<lparr>mLength := len, mChannel := channel, mDirectTransmission := direct\<rparr>\<rparr>)"

fun step :: "action \<Rightarrow> radio \<Rightarrow> fault + radio" where
  "step (StackWritesFrame len channel direct bytes) s = Inr (stack_writes_frame len channel direct bytes s)"
| "step (Call op) s = map_sum id snd (radio_call op s)"
| "step (DataConfirm params) s = map_sum id snd (handleDataConfirm params True s)"
| "step (DataIndication params) s = map_sum id snd (handleDataIndication params True s)"

fun run :: "action list \<Rightarrow> radio \<Rightarrow> fault + radio" where
  "run [] s = Inr s"
| "run (a # as) s = (case step a s of Inl f \<Rightarrow> Inl f | Inr s' \<Rightarrow> run as s')"

text \<open>
  The handles of the MCPS-DATA requests and the contexts of the transmit-done callbacks
  in a trace.
\<close>

fun request_handle :: "event \<Rightarrow> u8 option" where
  "request_handle (MCPS_DATA_request req sec) = Some (MsduHandle req)"
| "request_handle _ = None"

fun done_context :: "event \<Rightarrow> nat option" where
  "done_context (otPlatRadioTransmitDone ack err ctx) = Some ctx"
| "done_context _ = None"

text \<open>The specification's "lowest currently-unused non-zero handle".\<close>

definition lowest_unused_handle :: "u8 list \<Rightarrow> u8 option" where
  "lowest_unused_handle hs = List.find (\<lambda>h. h \<notin> set hs) (map of_nat [1..<256])"

definition confirm_of :: "u8 \<Rightarrow> u8 \<Rightarrow> MCPS_DATA_confirm_pset" where
  "confirm_of h st = \<lparr>conf_MsduHandle = h, conf_Status = st\<rparr>"

text \<open>Scenario 1 with the radio in Receive, and two runs from it.\<close>

definition scenario1_receive :: radio where
  "scenario1_receive = scenario1_state\<lparr>sState := kStateReceive\<rparr>"

definition two_transmit_actions :: "action list" where
  "two_transmit_actions =
     [Call (op_transmit 1 no_poll), StackWritesFrame 14 11 True scenario1_psdu,
      Call (op_transmit 2 no_poll)]"

definition reuse_actions :: "action list" where
  "reuse_actions =
     [Call (op_transmit 1 no_poll), DataConfirm (confirm_of 1 MAC_SUCCESS),
      Call (op_transmit 2 no_poll)]"

text \<open>
  Eight transmits of the scenario 1 frame with the contexts 1 to 8 and no confirm in
  between, the stack refilling the transmit buffer before each, and the state after
  them.
\<close>

definition eight_transmit_actions :: "action list" where
  "eight_transmit_actions =
     [Call (op_transmit 1 no_poll), StackWritesFrame 14 11 True scenario1_psdu,
      Call (op_transmit 2 no_poll), StackWritesFrame 14 11 True scenario1_psdu,
      Call (op_transmit 3 no_poll), StackWritesFrame 14 11 True scenario1_psdu,
      Call (op_transmit 4 no_poll), StackWritesFrame 14 11 True scenario1_psdu,
      Call (op_transmit 5 no_poll), StackWritesFrame 14 11 True scenario1_psdu,
      Call (op_transmit 6 no_poll), StackWritesFrame 14 11 True scenario1_psdu,
      Call (op_transmit 7 no_poll), StackWritesFrame 14 11 True scenario1_psdu,
      Call (op_transmit 8 no_poll)]"

definition after_eight_transmits :: radio where
  "after_eight_transmits = projr (run eight_transmit_actions scenario1_receive)"

subsection \<open>Example scan and indications\<close>

text \<open>
  The state after a successful energy-scan request for channel 11 alone (mask
  \<open>0x00000800\<close>, 200 ms, callback 7, context 9), and a confirm with one result.
\<close>

definition energy_scan_state :: radio where
  "energy_scan_state = radio_init\<lparr>sEnergyScanCallback := 7, sEnergyScanContext := 9,
     sEnergyScanInProgress := 1, sEnergyScanMask := 0x00000800,
     trace := [MLME_SCAN_request 0 0x00000800 3]\<rparr>"

definition one_result_confirm :: MLME_SCAN_confirm_pset where
  "one_result_confirm = \<lparr>scan_Status = MAC_SUCCESS, ResultListSize = 1, ResultList = [0x40]\<rparr>"

text \<open>
  An indication with short addresses in one PAN, no security and 120 bytes of payload:
  7 bytes of addressing, 3 of base header and 2 of FCS make 131. Scenario 3 of the
  specification is the same indication with the payload \<open>11 22\<close>.
\<close>

definition long_indication :: MCPS_DATA_indication_pset where
  "long_indication =
     \<lparr>ind_Src = \<lparr>AddressMode = 2, PANId = [0xEF, 0xBE], Address = [2, 0, 0, 0, 0, 0, 0, 0]\<rparr>,
      ind_Dst = \<lparr>AddressMode = 2, PANId = [0xEF, 0xBE], Address = [1, 0, 0, 0, 0, 0, 0, 0]\<rparr>,
      ind_MsduLength = 120, ind_MpduLinkQuality = 200, ind_Msdu = replicate 120 0x11,
      ind_Sec = \<lparr>SecurityLevel = 0, KeyIdMode = 0, KeySource = replicate 8 0, KeyIndex = 0\<rparr>\<rparr>"

definition scenario3_indication :: MCPS_DATA_indication_pset where
  "scenario3_indication = long_indication\<lparr>ind_MsduLength := 2, ind_Msdu := [0x11, 0x22]\<rparr>"

definition after_long_indication :: radio where
  "after_long_indication = snd (projr (handleDataIndication long_indication True radio_init))"

subsection \<open>Device table synchronisation\<close>

text \<open>
  The flags that trigger the synchroniser; the children with a non-zero extended address
  among the five indices that are enumerated; the devices to be written, children
  first, each with its RLOC16 and its extended address in the stack's byte order; the
  descriptor writes for a list of devices from a first slot on; and the writes that
  belong to the key table.
\<close>

definition sync_flags :: "header_consts \<Rightarrow> u32" where
  "sync_flags hc = OT_NET_KEY_SEQUENCE hc OR OT_THREAD_CHILD_ADDED hc
                   OR OT_THREAD_CHILD_REMOVED hc OR OT_NET_ROLE hc OR OT_THREAD_LINK_ACCEPT hc"

definition valid_child :: "otChildInfo \<Rightarrow> bool" where
  "valid_child c = list_ex (\<lambda>j. child_mExtAddress c ! j \<noteq> 0) [0..<8]"

definition valid_children :: "ot_stack \<Rightarrow> otChildInfo list" where
  "valid_children ot = filter valid_child (map (ot_ChildInfoByIndex ot) [0, 1, 2, 3, 4])"

definition sync_devices :: "ot_stack \<Rightarrow> (u16 \<times> u8 list) list" where
  "sync_devices ot =
     map (\<lambda>c. (child_mRloc16 c, child_mExtAddress c)) (valid_children ot)
     @ map (\<lambda>r. (router_mRloc16 r, router_mExtAddress r)) (ot_NeighborRouters ot)"

fun device_writes :: "u16 \<Rightarrow> u8 \<Rightarrow> (u16 \<times> u8 list) list \<Rightarrow> event list" where
  "device_writes panid slot [] = []"
| "device_writes panid slot ((rloc16, m8) # ds) =
     MLME_SET_request macDeviceTable slot (DeviceDescriptor (device_descriptor panid rloc16 m8))
     # device_writes panid (slot + 1) ds"

fun is_key_write :: "event \<Rightarrow> bool" where
  "is_key_write (MLME_SET_request attr i v) = (attr = macKeyTable \<or> attr = macKeyTableEntries)"
| "is_key_write _ = False"

text \<open>
  An example: values for the constants, a router with valid children at the indices 0
  and 3 and one router neighbour, key sequence counter 5.
\<close>

definition example_consts :: header_consts where
  "example_consts = \<lparr>OT_NET_KEY_SEQUENCE = 0x20, OT_THREAD_CHILD_ADDED = 0x40,
     OT_THREAD_CHILD_REMOVED = 0x80, OT_NET_ROLE = 0x08, OT_THREAD_LINK_ACCEPT = 0x400,
     KUD_FrameTypeMask = 0x03, KUD_CommandFrameIdentifierShift = 4,
     KUD_CommandFrameIdentifierMask = 0xF0, CMD_DATA_REQ = 0x04\<rparr>"

definition example_child :: "u8 \<Rightarrow> otChildInfo" where
  "example_child i =
     (if i = 0 then \<lparr>child_mExtAddress = [1, 2, 3, 4, 5, 6, 7, 8], child_mRloc16 = 0x0401\<rparr>
      else if i = 3 then \<lparr>child_mExtAddress = [0, 0, 0, 0, 0, 0, 0, 9], child_mRloc16 = 0x0402\<rparr>
      else \<lparr>child_mExtAddress = [0, 0, 0, 0, 0, 0, 0, 0], child_mRloc16 = 0\<rparr>)"

definition example_key :: "u32 \<Rightarrow> u8 list" where
  "example_key keySeq = replicate 16 (ucast keySeq)"

definition example_stack :: ot_stack where
  "example_stack = \<lparr>ot_KeySequenceCounter = 5, ot_DeviceRole = kDeviceRoleRouter,
     ot_PanId = 0xFACE, ot_ChildInfoByIndex = example_child,
     ot_NeighborRouters =
       [\<lparr>router_mExtAddress = [0x11, 0x12, 0x13, 0x14, 0x15, 0x16, 0x17, 0x18],
         router_mRloc16 = 0x0800\<rparr>],
     ot_ParentInfo = None, ot_MacKeyFromSequenceCounter = example_key\<rparr>"

subsection \<open>Footer, and what the indication path computes\<close>

text \<open>
  The MIC length of Table 95 as the two paths compute it, on natural numbers:
  \<open>2 << (level % 4)\<close>, a result of 2 replaced by 0.
\<close>

definition mic_length :: "nat \<Rightarrow> nat" where
  "mic_length level = (let m = 2 * 2 ^ (level mod 4) in if m = 2 then 0 else m)"

text \<open>
  The receive buffer, and the values that \<open>handleDataIndication\<close> derives from an
  indication and that buffer: \<open>headerLength\<close>, the length assigned to \<open>sReceiveFrame\<close>
  and the buffer after the payload has been copied in.
\<close>

definition rx_psdu :: "radio \<Rightarrow> u8 list" where
  "rx_psdu s = psdu_of s (mPsdu (sReceiveFrame s))"

definition rx_headerLength :: "MCPS_DATA_indication_pset \<Rightarrow> u8 list \<Rightarrow> u8" where
  "rx_headerLength params psdu = snd (snd (rx_header params psdu))"

definition rx_length :: "MCPS_DATA_indication_pset \<Rightarrow> u8 list \<Rightarrow> u8" where
  "rx_length params psdu =
     ind_MsduLength params + footerLength_of (SecurityLevel (ind_Sec params))
     + rx_headerLength params psdu"

definition rx_frame :: "MCPS_DATA_indication_pset \<Rightarrow> u8 list \<Rightarrow> u8 list" where
  "rx_frame params psdu =
     memcpy (fst (rx_header params psdu)) (unat (rx_headerLength params psdu))
       (ind_Msdu params) (unat (ind_MsduLength params))"

text \<open>
  The last call or callback in the trace.
\<close>

definition last_event :: "radio \<Rightarrow> event option" where
  "last_event s = (if trace s = [] then None else Some (last (trace s)))"

subsection \<open>The indication that answers a request\<close>







subsection \<open>Scenarios 1 and 2 of the specification\<close>




definition receiver :: radio where
  "receiver = radio_init\<lparr>sState := kStateReceive, sChannel := 11\<rparr>"


text \<open>
  Scenario 2: frame control \<open>0x8869\<close>, security control \<open>0x0D\<close> (level 5, key-id mode 1),
  frame counter \<open>01 00 00 00\<close>, key index 3, payload \<open>DE AD\<close>; the length 27 is header 15,
  payload 2 and the footer of 10 that the scenario states.
\<close>

definition scenario2_psdu :: "u8 list" where
  "scenario2_psdu =
     [0x69, 0x88, 0x07, 0xCE, 0xFA, 0x01, 0x00, 0x02, 0x00,
      0x0D, 0x01, 0x00, 0x00, 0x00, 0x03, 0xDE, 0xAD] @ replicate 110 0"

definition scenario2_state :: radio where
  "scenario2_state = radio_init\<lparr>sState := kStateReceive, sChannel := 11,
     sTransmitPsdu := scenario2_psdu,
     sTransmitFrame := (sTransmitFrame radio_init)
       \<lparr>mLength := 27, mChannel := 11, mDirectTransmission := True\<rparr>\<rparr>"

definition scenario2_security :: SecSpec where
  "scenario2_security =
     \<lparr>SecurityLevel = 5, KeyIdMode = 1, KeySource = replicate 8 0, KeyIndex = 3\<rparr>"

definition scenario2_request :: MCPS_DATA_request_pset where
  "scenario2_request =
     \<lparr>SrcAddrMode = 2, Dst = \<lparr>AddressMode = 2, PANId = [0xCE, 0xFA], Address = [0x01, 0x00]\<rparr>,
      MsduLength = 6, Msdu = [0xDE, 0xAD, 0x00, 0x00, 0x00, 0x00], MsduHandle = 1,
      TxOptions = 0x01\<rparr>"


section \<open>Fields that the helpers leave alone\<close>

lemma emit_fields [simp]:
  "sState (emit e s) = sState s" "handle (emit e s) = handle s"
  "IntransitHandles (emit e s) = IntransitHandles s"
  "IntransitPackets (emit e s) = IntransitPackets s"
  "intransit_mutex (emit e s) = intransit_mutex s"
  "receiveFrame_mutex (emit e s) = receiveFrame_mutex s"
  "sTransmitFrame (emit e s) = sTransmitFrame s"
  "sReceiveFrame (emit e s) = sReceiveFrame s"
  "sTransmitPsdu (emit e s) = sTransmitPsdu s"
  "sReceivePsdu (emit e s) = sReceivePsdu s"
  "sChannel (emit e s) = sChannel s"
  "sTransmitError (emit e s) = sTransmitError s"
  "sReceiveError (emit e s) = sReceiveError s"
  "trace (emit e s) = trace s @ [e]"
  by (simp_all add: emit_def)

lemma setChannel_fields [simp]:
  "sState (setChannel c s) = sState s" "handle (setChannel c s) = handle s"
  "IntransitHandles (setChannel c s) = IntransitHandles s"
  "IntransitPackets (setChannel c s) = IntransitPackets s"
  "intransit_mutex (setChannel c s) = intransit_mutex s"
  "receiveFrame_mutex (setChannel c s) = receiveFrame_mutex s"
  "sTransmitFrame (setChannel c s) = sTransmitFrame s"
  "sReceiveFrame (setChannel c s) = sReceiveFrame s"
  "sTransmitPsdu (setChannel c s) = sTransmitPsdu s"
  "sReceivePsdu (setChannel c s) = sReceivePsdu s"
  "sTransmitError (setChannel c s) = sTransmitError s"
  "sReceiveError (setChannel c s) = sReceiveError s"
  by (simp_all add: setChannel_def)

lemma psdu_of_simps [simp]:
  "psdu_of (emit e s) r = psdu_of s r"
  "psdu_of (setChannel c s) r = psdu_of s r"
  "psdu_of (s\<lparr>handle := h\<rparr>) r = psdu_of s r"
  "psdu_of (s\<lparr>sState := st\<rparr>) r = psdu_of s r"
  "psdu_of (s\<lparr>sTransmitError := te\<rparr>) r = psdu_of s r"
  by (simp_all add: psdu_of_def split: psdu_ref.splits)

lemma psdu_update_fields [simp]:
  "sState (psdu_update r b s) = sState s" "handle (psdu_update r b s) = handle s"
  "IntransitHandles (psdu_update r b s) = IntransitHandles s"
  "IntransitPackets (psdu_update r b s) = IntransitPackets s"
  "intransit_mutex (psdu_update r b s) = intransit_mutex s"
  "receiveFrame_mutex (psdu_update r b s) = receiveFrame_mutex s"
  "sTransmitFrame (psdu_update r b s) = sTransmitFrame s"
  "sReceiveFrame (psdu_update r b s) = sReceiveFrame s"
  "sChannel (psdu_update r b s) = sChannel s"
  "sReceiveError (psdu_update r b s) = sReceiveError s"
  "trace (psdu_update r b s) = trace s"
  by (simp_all add: psdu_update_def split: psdu_ref.splits)

lemma stack_writes_frame_fields [simp]:
  "IntransitHandles (stack_writes_frame len ch d bytes s) = IntransitHandles s"
  "IntransitPackets (stack_writes_frame len ch d bytes s) = IntransitPackets s"
  "intransit_mutex (stack_writes_frame len ch d bytes s) = intransit_mutex s"
  "receiveFrame_mutex (stack_writes_frame len ch d bytes s) = receiveFrame_mutex s"
  "sState (stack_writes_frame len ch d bytes s) = sState s"
  "handle (stack_writes_frame len ch d bytes s) = handle s"
  "trace (stack_writes_frame len ch d bytes s) = trace s"
  by (simp_all add: stack_writes_frame_def Let_def)

section \<open>Scan duration exponent\<close>

lemma ilog2_bounds: "0 < n \<Longrightarrow> 2 ^ ilog2 n \<le> n \<and> n < 2 ^ Suc (ilog2 n)"
proof (induction n rule: ilog2.induct)
  case (1 n)
  show ?case
  proof (cases "n < 2")
    case True
    with 1(2) have "n = 1" by simp
    then show ?thesis by (simp add: ilog2.simps)
  next
    case False
    then have "0 < n div 2" by simp
    with 1(1) False have ih: "2 ^ ilog2 (n div 2) \<le> n div 2" "n div 2 < 2 ^ Suc (ilog2 (n div 2))"
      by simp_all
    have eq: "ilog2 n = Suc (ilog2 (n div 2))" using False by (subst ilog2.simps) simp
    from ih show ?thesis unfolding eq by (simp; arith)
  qed
qed

lemma smear_step:
  fixes v w :: u32
  assumes "\<forall>n. bit w n \<longleftrightarrow> (\<exists>m. n \<le> m \<and> m < n + j \<and> bit v m)"
  shows "\<forall>n. bit (w OR drop_bit j w) n \<longleftrightarrow> (\<exists>m. n \<le> m \<and> m < n + 2 * j \<and> bit v m)"
proof
  fix n
  have "bit (w OR drop_bit j w) n \<longleftrightarrow> bit w n \<or> bit w (j + n)"
    by (simp add: bit_or_iff bit_drop_bit_eq)
  also have "\<dots> \<longleftrightarrow> (\<exists>m. n \<le> m \<and> m < n + j \<and> bit v m) \<or> (\<exists>m. j + n \<le> m \<and> m < j + n + j \<and> bit v m)"
    using assms by simp
  also have "\<dots> \<longleftrightarrow> (\<exists>m. n \<le> m \<and> m < n + 2 * j \<and> bit v m)"
  proof
    assume "(\<exists>m. n \<le> m \<and> m < n + j \<and> bit v m) \<or> (\<exists>m. j + n \<le> m \<and> m < j + n + j \<and> bit v m)"
    then show "\<exists>m. n \<le> m \<and> m < n + 2 * j \<and> bit v m"
      by (elim disjE exE) (rule_tac x = m in exI, simp)+
  next
    assume "\<exists>m. n \<le> m \<and> m < n + 2 * j \<and> bit v m"
    then obtain m where m: "n \<le> m" "m < n + 2 * j" "bit v m" by blast
    show "(\<exists>m. n \<le> m \<and> m < n + j \<and> bit v m) \<or> (\<exists>m. j + n \<le> m \<and> m < j + n + j \<and> bit v m)"
    proof (cases "m < n + j")
      case True with m show ?thesis by blast
    next
      case False
      with m have "j + n \<le> m \<and> m < j + n + j \<and> bit v m" by simp
      then show ?thesis by blast
    qed
  qed
  finally show "bit (w OR drop_bit j w) n \<longleftrightarrow> (\<exists>m. n \<le> m \<and> m < n + 2 * j \<and> bit v m)" .
qed

lemma bit_smear: "bit (smear v) n \<longleftrightarrow> (\<exists>m. n \<le> m \<and> m < n + 32 \<and> bit v m)"
proof -
  have 0: "\<forall>n. bit v n \<longleftrightarrow> (\<exists>m. n \<le> m \<and> m < n + 1 \<and> bit v m)"
    by (auto simp: less_Suc_eq_le dest: le_antisym)
  note 1 = smear_step [OF 0]
  note 2 = smear_step [OF 1]
  note 3 = smear_step [OF 2]
  note 4 = smear_step [OF 3]
  note 5 = smear_step [OF 4]
  from 5 show ?thesis by (simp add: smear_def Let_def)
qed

lemma smear_mask:
  fixes v :: u32
  assumes "bit v k" and "\<forall>m>k. \<not> bit v m"
  shows "smear v = mask (Suc k)"
proof (rule bit_eqI)
  fix n
  assume "possible_bit TYPE(u32) n"
  then have n: "n < 32" by (simp add: possible_bit_word)
  from assms(1) have k: "k < 32" using bit_imp_le_length by fastforce
  have "bit (smear v) n \<longleftrightarrow> n \<le> k"
  proof
    assume "bit (smear v) n"
    then obtain m where "n \<le> m" "bit v m" unfolding bit_smear by blast
    with assms(2) show "n \<le> k" by (meson not_le order_trans)
  next
    assume "n \<le> k"
    with k assms(1) have "n \<le> k \<and> k < n + 32 \<and> bit v k" by simp
    then show "bit (smear v) n" unfolding bit_smear by blast
  qed
  then show "bit (smear v) n \<longleftrightarrow> bit (mask (Suc k) :: u32) n"
    using n by (simp add: bit_mask_iff possible_bit_word less_Suc_eq_le)
qed

lemma tab32_debruijn:
  "list_all (\<lambda>k. tab32 ! unat (drop_bit 27 ((mask (Suc k) :: u32) * 0x07C4ACDD)) = of_nat k) [0..<32]"
  by code_simp

lemma highest_bit:
  fixes v :: u32
  assumes "v \<noteq> 0"
  shows "bit v (ilog2 (unat v)) \<and> (\<forall>m>ilog2 (unat v). \<not> bit v m) \<and> ilog2 (unat v) < 32"
proof -
  let ?k = "ilog2 (unat v)"
  from assms have pos: "0 < unat v" by (simp add: unat_gt_0)
  from ilog2_bounds [OF pos] have lo: "2 ^ ?k \<le> unat v" and hi: "unat v < 2 ^ Suc ?k" by simp_all
  have "unat v div 2 ^ ?k = 1"
    using lo hi by (simp add: div_nat_eqI)
  then have "bit (unat v) ?k" by (simp add: bit_iff_odd)
  then have b: "bit v ?k" by (simp add: bit_unsigned_iff)
  have hb: "\<not> bit v m" if "m > ?k" for m
  proof -
    from that have "Suc ?k \<le> m" by simp
    then have "(2::nat) ^ Suc ?k \<le> 2 ^ m" by (rule power_increasing) simp
    with hi have "unat v < 2 ^ m" by simp
    then have "unat v div 2 ^ m = 0" by simp
    then have "\<not> bit (unat v) m" by (simp add: bit_iff_odd)
    then show ?thesis by (simp add: bit_unsigned_iff)
  qed
  from b have "?k < 32" using bit_imp_le_length by fastforce
  with b hb show ?thesis by blast
qed

lemma log2_32_smear: "log2_32 v = tab32 ! unat (drop_bit 27 (smear v * 0x07C4ACDD))"
  by (simp add: log2_32_def smear_def Let_def)

lemma log2_32_correct:
  assumes "v \<noteq> 0"
  shows "unat (log2_32 v) = ilog2 (unat v)"
proof -
  let ?k = "ilog2 (unat v)"
  from highest_bit [OF assms] have b: "bit v ?k" "\<forall>m>?k. \<not> bit v m" "?k < 32" by simp_all
  have "smear v = mask (Suc ?k)" by (rule smear_mask [OF b(1) b(2)])
  moreover from tab32_debruijn b(3)
  have "tab32 ! unat (drop_bit 27 ((mask (Suc ?k) :: u32) * 0x07C4ACDD)) = of_nat ?k"
    by (simp add: list_all_iff)
  ultimately have "log2_32 v = of_nat ?k" by (simp add: log2_32_smear)
  with b(3) show ?thesis by (simp add: unat_of_nat)
qed

lemma scan_exponent_spec:
  "scan_exponent d ms =
     (if 50 \<le> unat ms then of_nat (clamp (ilog2 (unat ms div 15)) 0 14) else d)"
proof (cases "50 \<le> unat ms")
  case False
  then have "\<not> ms \<ge> 50" by (simp add: word_le_nat_alt)
  with False show ?thesis by (simp add: scan_exponent_def)
next
  case True
  note big = True
  then have ge: "ms \<ge> 50" by (simp add: word_le_nat_alt)
  let ?v = "ucast (ms div 15) :: u32"
  let ?k = "ilog2 (unat ms div 15)"
  have "unat (ms div 15) < 2 ^ 16" using unsigned_less [of "ms div 15"] by simp
  then have "unat (ms div 15) < 2 ^ 32" by simp
  then have uv: "unat ?v = unat ms div 15"
    by (simp add: unsigned_ucast_eq take_bit_nat_eq_self unat_div)
  with True have "unat ?v \<noteq> 0" by simp
  then have nz: "?v \<noteq> 0" by (metis unat_0)
  from log2_32_correct [OF nz] uv have lg: "unat (log2_32 ?v) = ?k" by simp
  have "log2_32 ?v = of_nat ?k" using lg by (metis of_nat_unat ucast_id)
  show ?thesis
  proof (cases "?k > 14")
    case True
    then have "log2_32 ?v > 14" using lg by (simp add: word_less_nat_alt)
    with ge big True show ?thesis by (simp add: scan_exponent_def Let_def clamp_def)
  next
    case False
    then have "\<not> log2_32 ?v > 14" using lg by (simp add: word_less_nat_alt)
    with ge big False \<open>log2_32 ?v = of_nat ?k\<close> show ?thesis
      by (simp add: scan_exponent_def Let_def clamp_def min_def)
  qed
qed

text \<open>
  Claim C6. A scan request that is made (no scan is in progress) passes to
  MLME-SCAN-request the exponent \<open>clamp(log2(ms / 15), 0, 14)\<close>, in integer arithmetic,
  when the duration \<open>ms\<close> is at least 50 milliseconds; below 50 the exponent is 5 for
  an active scan and 6 for an energy scan. A channel mask of 0 stands for the channels
  11 to 26.
\<close>

theorem scan_duration_exponent:
  assumes "sActiveScanInProgress s = 0" and "sEnergyScanInProgress s = 0"
  shows "trace (snd (otPlatRadioActiveScan chs ms cb ctx st s)) =
           trace s @ [MLME_SCAN_request 1 (if chs = 0 then 0x07fff800 else chs)
             (if 50 \<le> unat ms then of_nat (clamp (ilog2 (unat ms div 15)) 0 14) else 5)]
       \<and> trace (snd (otPlatRadioEnergyScan chs ms cb ctx st s)) =
           trace s @ [MLME_SCAN_request 0 (if chs = 0 then 0x07fff800 else chs)
             (if 50 \<le> unat ms then of_nat (clamp (ilog2 (unat ms div 15)) 0 14) else 6)]"
  using assms
  by (simp add: otPlatRadioActiveScan_def otPlatRadioEnergyScan_def Let_def emit_def
      scan_exponent_spec)

text \<open>An active scan of channels 15 and 20 for 200 ms uses exponent 3.\<close>

theorem scan_duration_exponent_witness:
  "trace (snd (otPlatRadioActiveScan 0x108000 200 1 2 MAC_SUCCESS radio_init)) =
     [MLME_SCAN_request 1 0x108000 3]
   \<and> trace (snd (otPlatRadioEnergyScan 0 49 1 2 MAC_SUCCESS radio_init)) =
     [MLME_SCAN_request 0 0x07fff800 6]"
proof -
  have a: "sActiveScanInProgress radio_init = 0" and e: "sEnergyScanInProgress radio_init = 0"
    by (simp_all add: radio_init_def)
  have k: "clamp (ilog2 (200 div 15)) 0 14 = 3"
    by (simp add: clamp_def ilog2.simps)
  from scan_duration_exponent [OF a e, of "0x108000" "200" 1 2 MAC_SUCCESS]
       scan_duration_exponent [OF a e, of 0 "49" 1 2 MAC_SUCCESS] k
  show ?thesis by (simp add: radio_init_def)
qed

section \<open>Promiscuous cache\<close>

text \<open>
  Claim C10. After \<open>otPlatRadioSetPromiscuous v\<close>, \<open>otPlatRadioGetPromiscuous\<close> returns \<open>v\<close>
  and changes nothing, so it issues no MLME-GET; in any state it issues an MLME-GET
  exactly when the cache is uninitialised.
\<close>

theorem promiscuous_cache:
  "otPlatRadioGetPromiscuous r (otPlatRadioSetPromiscuous v s) = (v, otPlatRadioSetPromiscuous v s)
   \<and> trace (snd (otPlatRadioGetPromiscuous r s)) =
       (if sPromiscuousCache s = tristate_uninit
        then trace s @ [MLME_GET_request macPromiscuousMode 0] else trace s)"
  by (simp add: otPlatRadioGetPromiscuous_def otPlatRadioSetPromiscuous_def emit_def Let_def)

theorem promiscuous_cache_witness:
  "otPlatRadioGetPromiscuous 0 (otPlatRadioSetPromiscuous True radio_init) =
     (True, otPlatRadioSetPromiscuous True radio_init)
   \<and> trace (snd (otPlatRadioGetPromiscuous 0 radio_init)) = [MLME_GET_request macPromiscuousMode 0]"
  using promiscuous_cache [of 0 True radio_init] by (simp add: radio_init_def)

section \<open>Search for a free handle\<close>

lemma skip_Inl:
  "\<not> intransit_mutex s \<Longrightarrow> skip_handles_in_use n h s = Inl f \<Longrightarrow>
     f = Diverges \<and> (\<forall>j<n. h + of_nat j \<in> set (IntransitHandles s))"
proof (induction n arbitrary: h)
  case 0
  then show ?case by simp
next
  case (Suc n)
  from Suc.prems have in_use: "h \<in> set (IntransitHandles s)"
    and rec: "skip_handles_in_use n (h + 1) s = Inl f"
    by (auto simp: intransit_isHandleInUse_def split: if_splits bool.splits)
  from Suc.IH [OF Suc.prems(1) rec]
  have f: "f = Diverges" and ih: "\<forall>j<n. h + 1 + of_nat j \<in> set (IntransitHandles s)"
    by simp_all
  have "h + of_nat j \<in> set (IntransitHandles s)" if "j < Suc n" for j
  proof (cases j)
    case 0
    with in_use show ?thesis by simp
  next
    case (Suc j')
    with that ih have "h + 1 + of_nat j' \<in> set (IntransitHandles s)" by simp
    with Suc show ?thesis by (simp add: add.assoc)
  qed
  with f show ?case by blast
qed

lemma skip_Inr:
  "\<not> intransit_mutex s \<Longrightarrow> skip_handles_in_use n h s = Inr h' \<Longrightarrow>
     h' \<notin> set (IntransitHandles s) \<and>
     (\<exists>k<n. h' = h + of_nat k \<and> (\<forall>j<k. h + of_nat j \<in> set (IntransitHandles s)))"
proof (induction n arbitrary: h)
  case 0
  then show ?case by simp
next
  case (Suc n)
  show ?case
  proof (cases "h \<in> set (IntransitHandles s)")
    case False
    with Suc.prems have "h' = h" by (simp add: intransit_isHandleInUse_def)
    with False show ?thesis by (intro conjI exI [of _ 0]) simp_all
  next
    case True
    with Suc.prems have rec: "skip_handles_in_use n (h + 1) s = Inr h'"
      by (simp add: intransit_isHandleInUse_def)
    from Suc.IH [OF Suc.prems(1) rec] obtain k where k: "h' \<notin> set (IntransitHandles s)"
      "k < n" "h' = h + 1 + of_nat k" "\<forall>j<k. h + 1 + of_nat j \<in> set (IntransitHandles s)"
      by blast
    have "h + of_nat j \<in> set (IntransitHandles s)" if "j < Suc k" for j
    proof (cases j)
      case 0
      with True show ?thesis by simp
    next
      case (Suc j')
      with that k(4) have "h + 1 + of_nat j' \<in> set (IntransitHandles s)" by simp
      with Suc show ?thesis by (simp add: add.assoc)
    qed
    with k show ?thesis
      by (intro conjI exI [of _ "Suc k"]) (simp_all add: add.assoc)
  qed
qed

lemma handles_not_exhausted:
  fixes h :: u8
  assumes "\<forall>j<256. h + of_nat j \<in> set hs"
  shows "256 \<le> length hs"
proof -
  have inj: "inj_on (\<lambda>j. h + (of_nat j :: u8)) {..<256}"
  proof (rule inj_onI)
    fix x y :: nat
    assume "x \<in> {..<256}" "y \<in> {..<256}" "h + (of_nat x :: u8) = h + of_nat y"
    then have "(of_nat x :: u8) = of_nat y" "x < 256" "y < 256" by simp_all
    then have "unat (of_nat x :: u8) = unat (of_nat y :: u8)" by simp
    with \<open>x < 256\<close> \<open>y < 256\<close> show "x = y" by (simp add: unat_of_nat)
  qed
  have "(\<lambda>j. h + (of_nat j :: u8)) ` {..<256} \<subseteq> set hs"
    using assms by auto
  then have "card ((\<lambda>j. h + (of_nat j :: u8)) ` {..<256}) \<le> card (set hs)"
    by (simp add: card_mono)
  with inj have "256 \<le> card (set hs)" by (simp add: card_image)
  also have "\<dots> \<le> length hs" by (rule card_length)
  finally show ?thesis .
qed

lemma skip_total:
  assumes "\<not> intransit_mutex s" and "length (IntransitHandles s) < 256"
  shows "\<exists>h'. skip_handles_in_use 256 h s = Inr h'"
proof (cases "skip_handles_in_use 256 h s")
  case (Inl f)
  from skip_Inl [OF assms(1) Inl] have "\<forall>j<256. h + of_nat j \<in> set (IntransitHandles s)"
    by simp
  from handles_not_exhausted [OF this] assms(2) show ?thesis by simp
next
  case (Inr h')
  then show ?thesis by blast
qed

lemma skip_blocked: "intransit_mutex s \<Longrightarrow> skip_handles_in_use (Suc n) h s = Inl Blocked"
  by (simp add: intransit_isHandleInUse_def)

section \<open>Radio state machine\<close>








section \<open>Transmit of a data frame\<close>

lemma transmit_data:
  assumes h: "skip_handles_in_use 256 (handle s + 1) s = Inr h"
    and en: "sState s \<noteq> kStateDisabled"
    and dat: "tx_is_data s"
    and fits: "tx_fits s"
    and free: "\<not> intransit_mutex s"
  shows "\<exists>s'. otPlatRadioTransmit c p s = Inr (kThreadError_None, s')
     \<and> handle s' = h \<and> sState s' = kStateTransmit
     \<and> trace s' = trace (setChannel (mChannel (sTransmitFrame s)) s)
                    @ [MCPS_DATA_request (tx_request h s) (tx_secSpec s)]
     \<and> IntransitHandles s' =
         (case empty_index (IntransitHandles s) of
            None \<Rightarrow> IntransitHandles s | Some i \<Rightarrow> (IntransitHandles s)[i := h])
     \<and> IntransitPackets s' =
         (case empty_index (IntransitHandles s) of
            None \<Rightarrow> IntransitPackets s
          | Some i \<Rightarrow> (IntransitPackets s)[i := (sTransmitFrame s)\<lparr>mTransmitContext := c\<rparr>])
     \<and> intransit_mutex s' = (empty_index (IntransitHandles s) = None)
     \<and> receiveFrame_mutex s' = receiveFrame_mutex s
     \<and> sReceiveFrame s' = sReceiveFrame s"
proof -
  obtain dst afl where a: "tx_addressing (tx_frameControl s) (tx_psdu s) = (dst, afl)"
    by (cases "tx_addressing (tx_frameControl s) (tx_psdu s)")
  obtain sec hl where b: "tx_security (tx_frameControl s) (tx_psdu s) afl = (sec, hl)"
    by (cases "tx_security (tx_frameControl s) (tx_psdu s) afl")
  from a b have obs: "tx_secSpec s = sec" "tx_headerLength s = hl" "tx_addressFieldLength s = afl"
    by (simp_all add: tx_secSpec_def tx_headerLength_def tx_addressFieldLength_def)
  from fits obs have nf: "\<not> length (tx_psdu s) < unat hl + unat (mLength (sTransmitFrame s) - footerLength_of (SecurityLevel sec) - hl)"
    by (simp add: tx_fits_def tx_msduLength_def)
  show ?thesis
  proof (cases "empty_index (IntransitHandles s)")
    case None
    with h en dat a b nf free obs show ?thesis
      by (simp add: otPlatRadioTransmit_def Let_def intransit_putFrame_def tx_is_data_def
          tx_frameControl_def [symmetric] tx_psdu_def [symmetric] tx_request_def tx_msduLength_def
          setChannel_def emit_def)
  next
    case (Some i)
    with h en dat a b nf free obs show ?thesis
      by (simp add: otPlatRadioTransmit_def Let_def intransit_putFrame_def tx_is_data_def
          tx_frameControl_def [symmetric] tx_psdu_def [symmetric] tx_request_def tx_msduLength_def
          setChannel_def emit_def)
  qed
qed

lemma transmit_data_elim:
  assumes "otPlatRadioTransmit c p s = Inr (e, s')"
    and "sState s \<noteq> kStateDisabled" and "tx_is_data s"
  shows "skip_handles_in_use 256 (handle s + 1) s = Inr (handle s') \<and> tx_fits s \<and> \<not> intransit_mutex s"
proof -
  from assms(1) obtain h where h: "skip_handles_in_use 256 (handle s + 1) s = Inr h"
    by (auto simp: otPlatRadioTransmit_def split: sum.splits)
  have free: "\<not> intransit_mutex s"
  proof
    assume "intransit_mutex s"
    from skip_blocked [OF this, of 255 "handle s + 1"] h show False by simp
  qed
  obtain dst afl where a: "tx_addressing (tx_frameControl s) (tx_psdu s) = (dst, afl)"
    by (cases "tx_addressing (tx_frameControl s) (tx_psdu s)")
  obtain sec hl where b: "tx_security (tx_frameControl s) (tx_psdu s) afl = (sec, hl)"
    by (cases "tx_security (tx_frameControl s) (tx_psdu s) afl")
  from a b have obs: "tx_secSpec s = sec" "tx_headerLength s = hl" "tx_addressFieldLength s = afl"
    by (simp_all add: tx_secSpec_def tx_headerLength_def tx_addressFieldLength_def)
  have fits: "tx_fits s"
  proof (rule ccontr)
    assume "\<not> tx_fits s"
    with obs have "length (tx_psdu s) < unat hl + unat (mLength (sTransmitFrame s) - footerLength_of (SecurityLevel sec) - hl)"
      by (simp add: tx_fits_def tx_msduLength_def)
    with assms h a b free show False
      by (cases "empty_index (IntransitHandles s)")
         (simp_all add: otPlatRadioTransmit_def Let_def intransit_putFrame_def tx_is_data_def
          tx_frameControl_def [symmetric] tx_psdu_def [symmetric])
  qed
  from transmit_data [OF h assms(2,3) fits free, of c p] assms(1) have "handle s' = h" by auto
  with h fits free show ?thesis by simp
qed

section \<open>In-transit table\<close>

lemma empty_index_None: "empty_index hs = None \<longleftrightarrow> 0 \<notin> set hs"
  by (induction hs) auto

lemma empty_index_Some:
  "empty_index hs = Some i \<Longrightarrow> i < length hs \<and> hs ! i = 0 \<and> (\<forall>j<i. hs ! j \<noteq> 0)"
proof (induction hs arbitrary: i)
  case Nil
  then show ?case by simp
next
  case (Cons x xs)
  show ?case
  proof (cases "x = 0")
    case True
    with Cons.prems show ?thesis by simp
  next
    case False
    with Cons.prems obtain i' where i': "empty_index xs = Some i'" "i = Suc i'"
      by auto
    from Cons.IH [OF i'(1)] have "i' < length xs" "xs ! i' = 0" "\<forall>j<i'. xs ! j \<noteq> 0"
      by simp_all
    with False i'(2) show ?thesis by (auto simp: nth_Cons split: nat.splits)
  qed
qed

lemma handle_index_None: "handle_index h hs = None \<longleftrightarrow> h \<notin> set hs"
  by (induction hs) auto

lemma handle_index_Some:
  "handle_index h hs = Some i \<Longrightarrow> i < length hs \<and> hs ! i = h \<and> (\<forall>j<i. hs ! j \<noteq> h)"
proof (induction hs arbitrary: i)
  case Nil
  then show ?case by simp
next
  case (Cons x xs)
  show ?case
  proof (cases "x = h")
    case True
    with Cons.prems show ?thesis by simp
  next
    case False
    with Cons.prems obtain i' where i': "handle_index h xs = Some i'" "i = Suc i'"
      by auto
    from Cons.IH [OF i'(1)] have "i' < length xs" "xs ! i' = h" "\<forall>j<i'. xs ! j \<noteq> h"
      by simp_all
    with False i'(2) show ?thesis by (auto simp: nth_Cons split: nat.splits)
  qed
qed

text \<open>A non-zero handle of a table without repetitions sits at one index only.\<close>

lemma distinct_live_unique:
  assumes "distinct (filter (\<lambda>h. h \<noteq> 0) hs)" and "i < length hs" and "j < length hs"
    and "hs ! i = h" and "hs ! j = h" and "h \<noteq> (0 :: u8)"
  shows "i = j"
  using assms
proof (induction hs arbitrary: i j)
  case Nil
  then show ?case by simp
next
  case (Cons x xs)
  show ?case
  proof (cases i)
    case 0
    note i0 = 0
    show ?thesis
    proof (cases j)
      case 0
      with i0 show ?thesis by simp
    next
      case (Suc j')
      with Cons.prems i0 have "x = h" "xs ! j' = h" "j' < length xs" by simp_all
      then have "h \<in> set xs" by auto
      with Cons.prems(1,6) \<open>x = h\<close> show ?thesis by simp
    qed
  next
    case (Suc i')
    note iS = Suc
    show ?thesis
    proof (cases j)
      case 0
      with Cons.prems iS have "x = h" "xs ! i' = h" "i' < length xs" by simp_all
      then have "h \<in> set xs" by auto
      with Cons.prems(1,6) \<open>x = h\<close> show ?thesis by simp
    next
      case (Suc j')
      from Cons.prems(1) have d: "distinct (filter (\<lambda>h. h \<noteq> 0) xs)"
        by (simp split: if_splits)
      from Cons.IH [OF d, of i' j'] Cons.prems iS Suc show ?thesis by simp
    qed
  qed
qed

lemma clear_handle_eq:
  assumes "distinct (filter (\<lambda>h. h \<noteq> 0) hs)" and "i < length hs" and "hs ! i = h" and "h \<noteq> (0 :: u8)"
  shows "map (\<lambda>x. if x = h then 0 else x) hs = hs[i := 0]"
proof (rule nth_equalityI)
  show "length (map (\<lambda>x. if x = h then 0 else x) hs) = length (hs[i := 0])" by simp
next
  fix j
  assume "j < length (map (\<lambda>x. if x = h then 0 else x) hs)"
  then have j: "j < length hs" by simp
  show "map (\<lambda>x. if x = h then 0 else x) hs ! j = hs[i := 0] ! j"
  proof (cases "j = i")
    case True
    with assms j show ?thesis by simp
  next
    case False
    with distinct_live_unique [OF assms(1) assms(2) j assms(3) _ assms(4)]
    have "hs ! j \<noteq> h" by blast
    with False j show ?thesis by simp
  qed
qed

lemma count_handle_one:
  assumes "distinct (filter (\<lambda>h. h \<noteq> 0) hs)" and "h \<noteq> (0 :: u8)"
  shows "length (filter (\<lambda>x. x = h) hs) \<le> 1"
  using assms
proof (induction hs)
  case Nil
  then show ?case by simp
next
  case (Cons x xs)
  from Cons.prems have d: "distinct (filter (\<lambda>h. h \<noteq> 0) xs)" by (simp split: if_splits)
  show ?case
  proof (cases "x = h")
    case True
    with Cons.prems have "h \<notin> set xs" by simp
    then have "filter (\<lambda>x. x = h) xs = []" by (auto simp: filter_empty_conv)
    with True show ?thesis by simp
  next
    case False
    with Cons.IH [OF d Cons.prems(2)] show ?thesis by simp
  qed
qed

lemma distinct_live_update:
  assumes "distinct (filter (\<lambda>h. h \<noteq> 0) hs)" and "i < length hs" and "h \<notin> set hs"
  shows "distinct (filter (\<lambda>h. h \<noteq> (0 :: u8)) (hs[i := h]))"
  using assms
proof (induction hs arbitrary: i)
  case Nil
  then show ?case by simp
next
  case (Cons x xs)
  from Cons.prems have d: "distinct (filter (\<lambda>h. h \<noteq> 0) xs)" by (simp split: if_splits)
  show ?case
  proof (cases i)
    case 0
    with Cons.prems d show ?thesis by simp
  next
    case (Suc i')
    with Cons.prems have i': "i' < length xs" and nin: "h \<notin> set xs" "h \<noteq> x" by auto
    from Cons.IH [OF d i' nin(1)] have dd: "distinct (filter (\<lambda>h. h \<noteq> 0) (xs[i' := h]))" .
    have "set (xs[i' := h]) \<subseteq> insert h (set xs)" by (rule set_update_subset_insert)
    with Cons.prems(1) nin have "x \<noteq> 0 \<Longrightarrow> x \<notin> set (xs[i' := h])"
      by (auto split: if_splits)
    with dd Suc show ?thesis by simp
  qed
qed

lemma distinct_live_clear:
  assumes "distinct (filter (\<lambda>h. h \<noteq> 0) hs)"
  shows "distinct (filter (\<lambda>h. h \<noteq> (0 :: u8)) (map (\<lambda>x. if x = h then 0 else x) hs))"
proof -
  have "filter (\<lambda>h. h \<noteq> 0) (map (\<lambda>x. if x = h then 0 else x) hs)
        = filter (\<lambda>x. x \<noteq> h) (filter (\<lambda>h. h \<noteq> 0) hs)"
    by (induction hs) auto
  moreover from assms have "distinct (filter (\<lambda>x. x \<noteq> h) (filter (\<lambda>h. h \<noteq> 0) hs))"
    by (rule distinct_filter)
  ultimately show ?thesis by (simp only:)
qed

lemma live_handles_bound: "table_ok s \<Longrightarrow> length (live_handles s) \<le> 7"
proof -
  assume "table_ok s"
  then have "length (IntransitHandles s) = 7" by (simp add: table_ok_def MAX_INTRANSITS_def)
  moreover have "length (live_handles s) \<le> length (IntransitHandles s)"
    by (simp add: live_handles_def)
  ultimately show ?thesis by simp
qed

lemma poll_loop_frame: "poll_loop n p d c s = (r, s') \<Longrightarrow> s' = s\<lparr>trace := trace s'\<rparr>"
proof (induction n p d c s rule: poll_loop.induct)
  case (1 count poll_ret dst sec s)
  let ?s2 = "if count > 0 then emit otPlatLog_warn (emit (MLME_POLL_request dst sec) s)
             else emit (MLME_POLL_request dst sec) s"
  have s2: "?s2 = s\<lparr>trace := trace ?s2\<rparr>" by (simp add: emit_def)
  show ?case
  proof (cases "poll_ret count = 0xFF \<and> count < 10")
    case True
    with "1.prems" have "poll_loop (count + 1) poll_ret dst sec ?s2 = (r, s')"
      by (subst (asm) poll_loop.simps) (simp add: Let_def)
    from "1.IH" [OF refl refl refl _ this] True have "s' = ?s2\<lparr>trace := trace s'\<rparr>" by simp
    then have "s' = (s\<lparr>trace := trace ?s2\<rparr>)\<lparr>trace := trace s'\<rparr>" using s2 by simp
    then show ?thesis by simp
  next
    case False
    with "1.prems" have "s' = ?s2"
      by (subst (asm) poll_loop.simps) (auto simp: Let_def split: if_splits)
    with s2 show ?thesis by simp
  qed
qed

lemma poll_loop_table:
  assumes "poll_loop n p d c s = (r, s')"
  shows "IntransitHandles s' = IntransitHandles s \<and> IntransitPackets s' = IntransitPackets s"
proof -
  from poll_loop_frame [OF assms] have "s' = s\<lparr>trace := trace s'\<rparr>" .
  then have "IntransitHandles s' = IntransitHandles (s\<lparr>trace := trace s'\<rparr>)"
    "IntransitPackets s' = IntransitPackets (s\<lparr>trace := trace s'\<rparr>)" by simp_all
  then show ?thesis by simp
qed

lemma transmit_table:
  assumes "otPlatRadioTransmit c p s = Inr (e, s')"
  shows "(IntransitHandles s' = IntransitHandles s \<and> IntransitPackets s' = IntransitPackets s)
         \<or> (tx_is_data s \<and> sState s \<noteq> kStateDisabled)"
  using assms
  apply (simp add: otPlatRadioTransmit_def Let_def tx_is_data_def tx_frameControl_def tx_psdu_def
      split: sum.splits if_splits prod.splits)
  apply (auto dest!: poll_loop_table)
  done

lemma transmit_table_ok:
  assumes ok: "table_ok s" and tx: "otPlatRadioTransmit c p s = Inr (e, s')"
  shows "table_ok s'"
proof -
  from transmit_table [OF tx] show ?thesis
  proof
    assume "IntransitHandles s' = IntransitHandles s \<and> IntransitPackets s' = IntransitPackets s"
    with ok show ?thesis by (simp add: table_ok_def live_handles_def)
  next
    assume d: "tx_is_data s \<and> sState s \<noteq> kStateDisabled"
    from transmit_data_elim [OF tx] d
    have h: "skip_handles_in_use 256 (handle s + 1) s = Inr (handle s')" and fits: "tx_fits s"
      and free: "\<not> intransit_mutex s" by simp_all
    from transmit_data [OF h _ _ fits free, of c p] d tx
    have hs: "IntransitHandles s' =
         (case empty_index (IntransitHandles s) of
            None \<Rightarrow> IntransitHandles s | Some i \<Rightarrow> (IntransitHandles s)[i := handle s'])"
      and ps: "IntransitPackets s' =
         (case empty_index (IntransitHandles s) of
            None \<Rightarrow> IntransitPackets s
          | Some i \<Rightarrow> (IntransitPackets s)[i := (sTransmitFrame s)\<lparr>mTransmitContext := c\<rparr>])"
      by auto
    from skip_Inr [OF free h] have fresh: "handle s' \<notin> set (IntransitHandles s)" by simp
    show ?thesis
    proof (cases "empty_index (IntransitHandles s)")
      case None
      with hs ps ok show ?thesis by (simp add: table_ok_def live_handles_def)
    next
      case (Some i)
      from empty_index_Some [OF Some] have i: "i < length (IntransitHandles s)" by simp
      from ok have "distinct (filter (\<lambda>h. h \<noteq> 0) (IntransitHandles s))"
        by (simp add: table_ok_def live_handles_def)
      from distinct_live_update [OF this i fresh] Some hs ps ok show ?thesis
        by (simp add: table_ok_def live_handles_def)
    qed
  qed
qed

lemma rmFrame_table:
  assumes "intransit_rmFrame h s = Inr (r, s')"
  shows "IntransitHandles s' = map (\<lambda>x. if x = h then 0 else x) (IntransitHandles s)
     \<and> IntransitPackets s' = IntransitPackets s"
  using assms by (auto simp: intransit_rmFrame_def split: if_splits)

lemma confirm_table:
  assumes "handleDataConfirm params u s = Inr (r, s')"
  shows "(IntransitHandles s' = IntransitHandles s
          \<or> IntransitHandles s' = map (\<lambda>x. if x = conf_MsduHandle params then 0 else x) (IntransitHandles s))
     \<and> IntransitPackets s' = IntransitPackets s"
  using assms
  by (auto simp: handleDataConfirm_def Let_def PlatformRadioSignal_def intransit_getFrame_def
      dest!: rmFrame_table split: if_splits sum.splits option.splits prod.splits)

lemma confirm_table_ok:
  assumes ok: "table_ok s" and c: "handleDataConfirm params u s = Inr (r, s')"
  shows "table_ok s'"
proof -
  from ok have d: "distinct (filter (\<lambda>h. h \<noteq> 0) (IntransitHandles s))"
    by (simp add: table_ok_def live_handles_def)
  from confirm_table [OF c] ok distinct_live_clear [OF d, of "conf_MsduHandle params"]
  show ?thesis by (auto simp: table_ok_def live_handles_def)
qed

lemma indication_table:
  assumes "handleDataIndication params u s = Inr (r, s')"
  shows "IntransitHandles s' = IntransitHandles s \<and> IntransitPackets s' = IntransitPackets s"
  using assms
  by (auto simp: handleDataIndication_def Let_def PlatformRadioSignal_def
      split: if_splits prod.splits)

lemma step_table_ok:
  assumes "table_ok s" and "step a s = Inr s'"
  shows "table_ok s'"
proof (cases a)
  case (StackWritesFrame len ch d bytes)
  with assms show ?thesis
    by (auto simp: stack_writes_frame_def Let_def table_ok_def live_handles_def)
next
  case (Call op)
  show ?thesis
  proof (cases op)
    case op_enable
    with Call assms show ?thesis
      by (auto simp: otPlatRadioEnable_def table_ok_def live_handles_def split: if_splits)
  next
    case op_disable
    with Call assms show ?thesis
      by (auto simp: otPlatRadioDisable_def table_ok_def live_handles_def split: if_splits)
  next
    case (op_receive ch)
    with Call assms show ?thesis
      by (auto simp: otPlatRadioReceive_def table_ok_def live_handles_def split: if_splits)
  next
    case (op_transmit c p)
    with Call assms obtain e where "otPlatRadioTransmit c p s = Inr (e, s')"
      by (cases "otPlatRadioTransmit c p s") auto
    from transmit_table_ok [OF assms(1) this] show ?thesis .
  qed
next
  case (DataConfirm params)
  with assms obtain r where "handleDataConfirm params True s = Inr (r, s')"
    by (cases "handleDataConfirm params True s") auto
  from confirm_table_ok [OF assms(1) this] show ?thesis .
next
  case (DataIndication params)
  with assms obtain r where "handleDataIndication params True s = Inr (r, s')"
    by (cases "handleDataIndication params True s") auto
  from indication_table [OF this] assms(1) show ?thesis
    by (simp add: table_ok_def live_handles_def)
qed

lemma run_table_ok: "table_ok s \<Longrightarrow> run as s = Inr s' \<Longrightarrow> table_ok s'"
proof (induction as arbitrary: s)
  case Nil
  then show ?case by simp
next
  case (Cons a as)
  from Cons.prems(2) obtain s1 where s1: "step a s = Inr s1" "run as s1 = Inr s'"
    by (cases "step a s") auto
  from step_table_ok [OF Cons.prems(1) s1(1)] have "table_ok s1" .
  from Cons.IH [OF this s1(2)] show ?case .
qed

lemma map_filter_snoc:
  "List.map_filter f (xs @ [x]) = List.map_filter f xs @ (case f x of None \<Rightarrow> [] | Some y \<Rightarrow> [y])"
  by (simp add: List.map_filter_def split: option.splits)

lemma request_handles_setChannel:
  "List.map_filter request_handle (trace (setChannel c s)) = List.map_filter request_handle (trace s)"
  by (simp add: setChannel_def map_filter_snoc)

lemma zero_in_table:
  fixes hs :: "u8 list"
  assumes "length (filter (\<lambda>h. h \<noteq> 0) hs) < length hs"
  shows "0 \<in> set hs"
proof (rule ccontr)
  assume "0 \<notin> set hs"
  then have "filter (\<lambda>h. h \<noteq> 0) hs = hs" by (auto simp: filter_id_conv)
  with assms show False by simp
qed

lemma putFrame_cases:
  assumes "\<not> intransit_mutex s"
  shows "case empty_index (IntransitHandles s) of
           Some i \<Rightarrow> i < length (IntransitHandles s) \<and> IntransitHandles s ! i = 0
              \<and> (\<forall>j<i. IntransitHandles s ! j \<noteq> 0)
              \<and> intransit_putFrame h pkt s =
                  Inr (0, s\<lparr>IntransitHandles := (IntransitHandles s)[i := h],
                            IntransitPackets := (IntransitPackets s)[i := pkt]\<rparr>)
         | None \<Rightarrow> 0 \<notin> set (IntransitHandles s)
              \<and> (\<exists>s'. intransit_putFrame h pkt s = Inr (- 1, s')
                    \<and> IntransitHandles s' = IntransitHandles s
                    \<and> IntransitPackets s' = IntransitPackets s)"
proof (cases "empty_index (IntransitHandles s)")
  case None
  then have "0 \<notin> set (IntransitHandles s)" by (simp add: empty_index_None)
  with assms None show ?thesis by (simp add: intransit_putFrame_def)
next
  case (Some i)
  with assms empty_index_Some [OF Some] show ?thesis by (simp add: intransit_putFrame_def)
qed

lemma transmit_data_table:
  assumes tx: "otPlatRadioTransmit c p s = Inr (e, s')"
    and dat: "tx_is_data s" and en: "sState s \<noteq> kStateDisabled"
  shows "e = kThreadError_None \<and> sState s' = kStateTransmit
     \<and> skip_handles_in_use 256 (handle s + 1) s = Inr (handle s')
     \<and> \<not> intransit_mutex s
     \<and> handle s' \<notin> set (IntransitHandles s)
     \<and> List.map_filter request_handle (trace s') = List.map_filter request_handle (trace s) @ [handle s']
     \<and> List.map_filter done_context (trace s') = List.map_filter done_context (trace s)
     \<and> receiveFrame_mutex s' = receiveFrame_mutex s
     \<and> IntransitHandles s' =
         (case empty_index (IntransitHandles s) of
            None \<Rightarrow> IntransitHandles s | Some i \<Rightarrow> (IntransitHandles s)[i := handle s'])
     \<and> IntransitPackets s' =
         (case empty_index (IntransitHandles s) of
            None \<Rightarrow> IntransitPackets s
          | Some i \<Rightarrow> (IntransitPackets s)[i := (sTransmitFrame s)\<lparr>mTransmitContext := c\<rparr>])
     \<and> intransit_mutex s' = (empty_index (IntransitHandles s) = None)"
proof -
  from transmit_data_elim [OF tx en dat]
  have h: "skip_handles_in_use 256 (handle s + 1) s = Inr (handle s')" and fits: "tx_fits s"
    and free: "\<not> intransit_mutex s" by simp_all
  from skip_Inr [OF free h] have fresh: "handle s' \<notin> set (IntransitHandles s)" by simp
  from transmit_data [OF h en dat fits free, of c p] tx
  have *: "e = kThreadError_None" "sState s' = kStateTransmit"
    "trace s' = trace (setChannel (mChannel (sTransmitFrame s)) s)
                    @ [MCPS_DATA_request (tx_request (handle s') s) (tx_secSpec s)]"
    "IntransitHandles s' =
         (case empty_index (IntransitHandles s) of
            None \<Rightarrow> IntransitHandles s | Some i \<Rightarrow> (IntransitHandles s)[i := handle s'])"
    "IntransitPackets s' =
         (case empty_index (IntransitHandles s) of
            None \<Rightarrow> IntransitPackets s
          | Some i \<Rightarrow> (IntransitPackets s)[i := (sTransmitFrame s)\<lparr>mTransmitContext := c\<rparr>])"
    "intransit_mutex s' = (empty_index (IntransitHandles s) = None)"
    "receiveFrame_mutex s' = receiveFrame_mutex s"
    by auto
  have "List.map_filter request_handle (trace s')
          = List.map_filter request_handle (trace s) @ [handle s']"
    by (simp add: *(3) map_filter_snoc request_handles_setChannel tx_request_def)
  moreover have "List.map_filter done_context (trace s') = List.map_filter done_context (trace s)"
    by (simp add: *(3) map_filter_snoc setChannel_def)
  ultimately show ?thesis using * h free fresh by simp
qed

lemma confirm_routes:
  assumes ok: "table_ok s" and free: "\<not> intransit_mutex s" "\<not> receiveFrame_mutex s"
    and i: "i < length (IntransitHandles s)" "IntransitHandles s ! i = h" and nz: "h \<noteq> 0"
  shows "\<exists>s'. handleDataConfirm (confirm_of h st) True s = Inr (0, s')
     \<and> List.map_filter done_context (trace s')
         = List.map_filter done_context (trace s) @ [mTransmitContext (IntransitPackets s ! i)]
     \<and> IntransitHandles s' = (IntransitHandles s)[i := 0]
     \<and> IntransitPackets s' = IntransitPackets s
     \<and> \<not> intransit_mutex s' \<and> \<not> receiveFrame_mutex s'"
proof -
  from ok have d: "distinct (filter (\<lambda>h. h \<noteq> 0) (IntransitHandles s))"
    by (simp add: table_ok_def live_handles_def)
  from i have "h \<in> set (IntransitHandles s)" by auto
  then obtain i' where i': "handle_index h (IntransitHandles s) = Some i'"
    using handle_index_None [of h "IntransitHandles s"] by (cases "handle_index h (IntransitHandles s)") auto
  from handle_index_Some [OF i'] have "i' < length (IntransitHandles s)" "IntransitHandles s ! i' = h"
    by simp_all
  from distinct_live_unique [OF d this(1) i(1) this(2) i(2) nz] i' have idx: "handle_index h (IntransitHandles s) = Some i"
    by simp
  from count_handle_one [OF d nz] have cnt: "\<not> 1 < length (filter (\<lambda>x. x = h) (IntransitHandles s))"
    by simp
  note clr = clear_handle_eq [OF d i nz]
  show ?thesis
    using free idx cnt clr \<open>h \<in> set (IntransitHandles s)\<close>
    by (simp add: handleDataConfirm_def confirm_of_def intransit_getFrame_def intransit_rmFrame_def
        PlatformRadioSignal_def Let_def List.map_filter_def emit_def)
qed

lemma live_after_store:
  fixes hs :: "u8 list"
  assumes "i < length hs" and "hs ! i = 0" and "h \<noteq> 0"
  shows "length (filter (\<lambda>h. h \<noteq> 0) (hs[i := h])) = Suc (length (filter (\<lambda>h. h \<noteq> 0) hs))"
  using assms
proof (induction hs arbitrary: i)
  case Nil
  then show ?case by simp
next
  case (Cons x xs)
  then show ?case by (cases i) simp_all
qed

lemma two_transmits:
  assumes ok: "table_ok s" and two: "length (live_handles s) \<le> 5"
    and rfree: "\<not> receiveFrame_mutex s"
    and tx1: "otPlatRadioTransmit c1 p1 s = Inr (e1, s1)"
    and d1: "tx_is_data s" and en: "sState s \<noteq> kStateDisabled"
    and tx2: "otPlatRadioTransmit c2 p2 (stack_writes_frame len ch d bytes s1) = Inr (e2, s2)"
    and d2: "tx_is_data (stack_writes_frame len ch d bytes s1)"
  shows "\<exists>i1 i2. i1 < length (IntransitHandles s2) \<and> i2 < length (IntransitHandles s2) \<and> i1 \<noteq> i2
       \<and> handle s1 \<noteq> 0 \<and> handle s2 \<noteq> 0 \<and> handle s1 \<noteq> handle s2
       \<and> IntransitHandles s2 ! i1 = handle s1 \<and> IntransitHandles s2 ! i2 = handle s2
       \<and> mTransmitContext (IntransitPackets s2 ! i1) = c1
       \<and> mTransmitContext (IntransitPackets s2 ! i2) = c2
       \<and> table_ok s2 \<and> \<not> intransit_mutex s2 \<and> \<not> receiveFrame_mutex s2"
proof -
  let ?hs = "IntransitHandles s" and ?ps = "IntransitPackets s"
  from ok have len: "length ?hs = 7" "length ?ps = 7"
    by (simp_all add: table_ok_def MAX_INTRANSITS_def)
  from two len have z: "0 \<in> set ?hs"
    by (intro zero_in_table) (simp add: live_handles_def)
  then obtain i1 where i1: "empty_index ?hs = Some i1"
    using empty_index_None [of ?hs] by (cases "empty_index ?hs") auto
  from empty_index_Some [OF i1] have i1p: "i1 < length ?hs" "?hs ! i1 = 0" by simp_all
  note t1 = transmit_data_table [OF tx1 d1 en]
  from t1 z have h1: "handle s1 \<noteq> 0" by auto
  from t1 i1 have hs1: "IntransitHandles s1 = ?hs[i1 := handle s1]"
    and ps1: "IntransitPackets s1 = ?ps[i1 := (sTransmitFrame s)\<lparr>mTransmitContext := c1\<rparr>]"
    and m1: "\<not> intransit_mutex s1" "\<not> receiveFrame_mutex s1" "sState s1 = kStateTransmit"
    using rfree by simp_all
  let ?s1w = "stack_writes_frame len ch d bytes s1"
  from transmit_table_ok [OF ok tx1] have ok1: "table_ok ?s1w"
    by (simp add: table_ok_def live_handles_def)
  have "length (filter (\<lambda>h. h \<noteq> 0) (IntransitHandles s1)) = Suc (length (live_handles s))"
    unfolding hs1 live_handles_def by (rule live_after_store [OF i1p h1])
  with two len hs1 have z1: "0 \<in> set (IntransitHandles s1)"
    by (intro zero_in_table) simp
  then obtain i2 where i2: "empty_index (IntransitHandles s1) = Some i2"
    using empty_index_None [of "IntransitHandles s1"]
    by (cases "empty_index (IntransitHandles s1)") auto
  from empty_index_Some [OF i2] have i2p: "i2 < length (IntransitHandles s1)"
    "IntransitHandles s1 ! i2 = 0" by simp_all
  from i2p i1p h1 hs1 have ne: "i1 \<noteq> i2" by auto
  have en1: "sState ?s1w \<noteq> kStateDisabled" using m1 by simp
  note t2 = transmit_data_table [OF tx2 d2 en1]
  from t2 z1 have h2: "handle s2 \<noteq> 0" by auto
  from t2 have "handle s2 \<notin> set (IntransitHandles s1)" by simp
  moreover from i1p hs1 have "handle s1 \<in> set (IntransitHandles s1)"
    by (metis length_list_update nth_list_update_eq nth_mem)
  ultimately have hne: "handle s1 \<noteq> handle s2" by auto
  from t2 i2 have hs2: "IntransitHandles s2 = (IntransitHandles s1)[i2 := handle s2]"
    and ps2: "IntransitPackets s2 =
        (IntransitPackets s1)[i2 := (sTransmitFrame ?s1w)\<lparr>mTransmitContext := c2\<rparr>]"
    and m2: "\<not> intransit_mutex s2" "\<not> receiveFrame_mutex s2"
    using m1 by simp_all
  from transmit_table_ok [OF ok1 tx2] have ok2: "table_ok s2" .
  from hs2 hs1 i1p i2p ne have a: "IntransitHandles s2 ! i1 = handle s1"
    "IntransitHandles s2 ! i2 = handle s2" by simp_all
  from ps2 ps1 i1p i2p ne len hs1 have b: "mTransmitContext (IntransitPackets s2 ! i1) = c1"
    "mTransmitContext (IntransitPackets s2 ! i2) = c2" by simp_all
  from i1p i2p hs1 hs2 have c: "i1 < length (IntransitHandles s2)" "i2 < length (IntransitHandles s2)"
    by simp_all
  from a b c ne h1 h2 hne ok2 m2 show ?thesis by blast
qed

lemma two_transmits_distinct:
  assumes tx1: "otPlatRadioTransmit c1 p1 s = Inr (e1, s1)"
    and d1: "tx_is_data s" and en: "sState s \<noteq> kStateDisabled"
    and tx2: "otPlatRadioTransmit c2 p2 (stack_writes_frame len ch d bytes s1) = Inr (e2, s2)"
    and d2: "tx_is_data (stack_writes_frame len ch d bytes s1)"
  shows "handle s1 \<noteq> handle s2"
proof -
  let ?s1w = "stack_writes_frame len ch d bytes s1"
  note t1 = transmit_data_table [OF tx1 d1 en]
  from t1 have en1: "sState ?s1w \<noteq> kStateDisabled" by simp
  note t2 = transmit_data_table [OF tx2 d2 en1]
  from t2 have "\<not> intransit_mutex s1" by simp
  with t1 obtain i where i: "empty_index (IntransitHandles s) = Some i"
    by (cases "empty_index (IntransitHandles s)") auto
  from empty_index_Some [OF i] have "i < length (IntransitHandles s)" by simp
  with t1 i have "handle s1 \<in> set (IntransitHandles s1)"
    by (simp add: set_update_memI)
  moreover from t2 have "handle s2 \<notin> set (IntransitHandles s1)" by simp
  ultimately show ?thesis by auto
qed

lemma confirm_pair:
  assumes ok: "table_ok s" and free: "\<not> intransit_mutex s" "\<not> receiveFrame_mutex s"
    and i: "i < length (IntransitHandles s)" "j < length (IntransitHandles s)" "i \<noteq> j"
    and h: "IntransitHandles s ! i = h" "h \<noteq> 0" and g: "IntransitHandles s ! j = g" "g \<noteq> 0"
  shows "\<exists>s3 s4. handleDataConfirm (confirm_of h st) True s = Inr (0, s3)
     \<and> List.map_filter done_context (trace s3)
         = List.map_filter done_context (trace s) @ [mTransmitContext (IntransitPackets s ! i)]
     \<and> handleDataConfirm (confirm_of g st') True s3 = Inr (0, s4)
     \<and> List.map_filter done_context (trace s4)
         = List.map_filter done_context (trace s3) @ [mTransmitContext (IntransitPackets s ! j)]"
proof -
  from confirm_routes [OF ok free i(1) h, of st] obtain s3 where
    s3: "handleDataConfirm (confirm_of h st) True s = Inr (0, s3)"
    "List.map_filter done_context (trace s3)
       = List.map_filter done_context (trace s) @ [mTransmitContext (IntransitPackets s ! i)]"
    "IntransitHandles s3 = (IntransitHandles s)[i := 0]" "IntransitPackets s3 = IntransitPackets s"
    "\<not> intransit_mutex s3" "\<not> receiveFrame_mutex s3" by blast
  from confirm_table_ok [OF ok s3(1)] have ok3: "table_ok s3" .
  from s3(3) i g have j3: "j < length (IntransitHandles s3)" "IntransitHandles s3 ! j = g"
    by simp_all
  from confirm_routes [OF ok3 s3(5,6) j3 g(2), of st'] s3(4) obtain s4 where
    "handleDataConfirm (confirm_of g st') True s3 = Inr (0, s4)"
    "List.map_filter done_context (trace s4)
       = List.map_filter done_context (trace s3) @ [mTransmitContext (IntransitPackets s ! j)]"
    by auto
  with s3(1,2) show ?thesis by blast
qed

text \<open>
  The in-transit table below capacity. From a table in order, every run of stack
  calls, confirms and indications leaves the table in order: at most 7 live handles, none of them twice. A transmit of
  a data frame takes a handle that is not live at that moment, sends the request under
  it and, when a slot is free, stores it as a live handle. When two data frames are
  transmitted, the stack refilling the buffer in between, their handles differ; and
  when at least two slots were free, the confirms call transmit-done with the context
  of the first transmit for the first handle and of the second for the second, in
  whichever order the confirms arrive.
\<close>

theorem intransit_handles_unique:
  assumes ok: "table_ok s"
  shows "(\<forall>as s'. run as s = Inr s' \<longrightarrow>
            table_ok s' \<and> length (live_handles s') \<le> 7 \<and> distinct (live_handles s'))
     \<and> (\<forall>c p e s'. otPlatRadioTransmit c p s = Inr (e, s') \<and> tx_is_data s
            \<and> sState s \<noteq> kStateDisabled \<longrightarrow>
            handle s' \<notin> set (live_handles s)
            \<and> List.map_filter request_handle (trace s')
                = List.map_filter request_handle (trace s) @ [handle s']
            \<and> (0 \<in> set (IntransitHandles s) \<longrightarrow> handle s' \<noteq> 0 \<and> handle s' \<in> set (live_handles s')))
     \<and> (\<forall>c1 p1 e1 s1 len ch d bytes c2 p2 e2 s2.
            sState s \<noteq> kStateDisabled \<and> tx_is_data s
            \<and> otPlatRadioTransmit c1 p1 s = Inr (e1, s1)
            \<and> tx_is_data (stack_writes_frame len ch d bytes s1)
            \<and> otPlatRadioTransmit c2 p2 (stack_writes_frame len ch d bytes s1) = Inr (e2, s2) \<longrightarrow>
            handle s1 \<noteq> handle s2)
     \<and> (\<forall>c1 p1 e1 s1 len ch d bytes c2 p2 e2 s2 st st'.
            length (live_handles s) \<le> 5 \<and> \<not> receiveFrame_mutex s
            \<and> sState s \<noteq> kStateDisabled \<and> tx_is_data s
            \<and> otPlatRadioTransmit c1 p1 s = Inr (e1, s1)
            \<and> tx_is_data (stack_writes_frame len ch d bytes s1)
            \<and> otPlatRadioTransmit c2 p2 (stack_writes_frame len ch d bytes s1) = Inr (e2, s2) \<longrightarrow>
            (\<exists>s3 s4. handleDataConfirm (confirm_of (handle s1) st) True s2 = Inr (0, s3)
                  \<and> List.map_filter done_context (trace s3)
                      = List.map_filter done_context (trace s2) @ [c1]
                  \<and> handleDataConfirm (confirm_of (handle s2) st') True s3 = Inr (0, s4)
                  \<and> List.map_filter done_context (trace s4)
                      = List.map_filter done_context (trace s3) @ [c2])
            \<and> (\<exists>s3 s4. handleDataConfirm (confirm_of (handle s2) st) True s2 = Inr (0, s3)
                  \<and> List.map_filter done_context (trace s3)
                      = List.map_filter done_context (trace s2) @ [c2]
                  \<and> handleDataConfirm (confirm_of (handle s1) st') True s3 = Inr (0, s4)
                  \<and> List.map_filter done_context (trace s4)
                      = List.map_filter done_context (trace s3) @ [c1]))"
proof (intro conjI allI impI)
  fix as s'
  assume "run as s = Inr s'"
  from run_table_ok [OF ok this] have ok': "table_ok s'" .
  then show "table_ok s'" .
  from ok' show "length (live_handles s') \<le> 7" by (rule live_handles_bound)
  from ok' show "distinct (live_handles s')" by (simp add: table_ok_def)
next
  fix c p e s'
  assume a: "otPlatRadioTransmit c p s = Inr (e, s') \<and> tx_is_data s \<and> sState s \<noteq> kStateDisabled"
  then have tx: "otPlatRadioTransmit c p s = Inr (e, s')" and d: "tx_is_data s"
    and en: "sState s \<noteq> kStateDisabled" by simp_all
  note t = transmit_data_table [OF tx d en]
  from t show "handle s' \<notin> set (live_handles s)" by (simp add: live_handles_def)
  from t show "List.map_filter request_handle (trace s')
                = List.map_filter request_handle (trace s) @ [handle s']" by simp
  assume z: "0 \<in> set (IntransitHandles s)"
  with t show nz: "handle s' \<noteq> 0" by auto
  from z obtain i where i: "empty_index (IntransitHandles s) = Some i"
    using empty_index_None [of "IntransitHandles s"]
    by (cases "empty_index (IntransitHandles s)") auto
  from empty_index_Some [OF i] have "i < length (IntransitHandles s)" by simp
  with t i have "handle s' \<in> set (IntransitHandles s')"
    by (simp add: set_update_memI)
  with nz show "handle s' \<in> set (live_handles s')" by (simp add: live_handles_def)
next
  fix c1 p1 e1 s1 len ch d bytes c2 p2 e2 s2
  assume "sState s \<noteq> kStateDisabled \<and> tx_is_data s
            \<and> otPlatRadioTransmit c1 p1 s = Inr (e1, s1)
            \<and> tx_is_data (stack_writes_frame len ch d bytes s1)
            \<and> otPlatRadioTransmit c2 p2 (stack_writes_frame len ch d bytes s1) = Inr (e2, s2)"
  then show "handle s1 \<noteq> handle s2"
    using two_transmits_distinct [of c1 p1 s e1 s1 c2 p2 len ch d bytes e2 s2] by blast
next
  fix c1 p1 e1 s1 len ch d bytes c2 p2 e2 s2 st st'
  assume a: "length (live_handles s) \<le> 5 \<and> \<not> receiveFrame_mutex s
            \<and> sState s \<noteq> kStateDisabled \<and> tx_is_data s
            \<and> otPlatRadioTransmit c1 p1 s = Inr (e1, s1)
            \<and> tx_is_data (stack_writes_frame len ch d bytes s1)
            \<and> otPlatRadioTransmit c2 p2 (stack_writes_frame len ch d bytes s1) = Inr (e2, s2)"
  then have two: "length (live_handles s) \<le> 5" and rfree: "\<not> receiveFrame_mutex s"
    and en: "sState s \<noteq> kStateDisabled" and d1: "tx_is_data s"
    and tx1: "otPlatRadioTransmit c1 p1 s = Inr (e1, s1)"
    and d2: "tx_is_data (stack_writes_frame len ch d bytes s1)"
    and tx2: "otPlatRadioTransmit c2 p2 (stack_writes_frame len ch d bytes s1) = Inr (e2, s2)"
    by simp_all
  from two_transmits [OF ok two rfree tx1 d1 en tx2 d2] obtain i1 i2 where
    i: "i1 < length (IntransitHandles s2)" "i2 < length (IntransitHandles s2)" "i1 \<noteq> i2"
    and h: "handle s1 \<noteq> 0" "handle s2 \<noteq> 0" "handle s1 \<noteq> handle s2"
    and at: "IntransitHandles s2 ! i1 = handle s1" "IntransitHandles s2 ! i2 = handle s2"
    and cx: "mTransmitContext (IntransitPackets s2 ! i1) = c1"
            "mTransmitContext (IntransitPackets s2 ! i2) = c2"
    and ok2: "table_ok s2" and m2: "\<not> intransit_mutex s2" "\<not> receiveFrame_mutex s2"
    by blast
  from confirm_pair [OF ok2 m2 i(1,2,3) at(1) h(1) at(2) h(2), of st st'] cx
  show "\<exists>s3 s4. handleDataConfirm (confirm_of (handle s1) st) True s2 = Inr (0, s3)
                  \<and> List.map_filter done_context (trace s3)
                      = List.map_filter done_context (trace s2) @ [c1]
                  \<and> handleDataConfirm (confirm_of (handle s2) st') True s3 = Inr (0, s4)
                  \<and> List.map_filter done_context (trace s4)
                      = List.map_filter done_context (trace s3) @ [c2]" by simp
  from i(3) have "i2 \<noteq> i1" by simp
  from confirm_pair [OF ok2 m2 i(2,1) this at(2) h(2) at(1) h(1), of st st'] cx
  show "\<exists>s3 s4. handleDataConfirm (confirm_of (handle s2) st) True s2 = Inr (0, s3)
                  \<and> List.map_filter done_context (trace s3)
                      = List.map_filter done_context (trace s2) @ [c2]
                  \<and> handleDataConfirm (confirm_of (handle s1) st') True s3 = Inr (0, s4)
                  \<and> List.map_filter done_context (trace s4)
                      = List.map_filter done_context (trace s3) @ [c1]" by simp
qed

text \<open>Two transmits of the scenario 1 frame with contexts 1 and 2, confirmed in reverse order.\<close>

theorem intransit_handles_unique_witness:
  "table_ok scenario1_receive
   \<and> (\<exists>s'. run two_transmit_actions scenario1_receive = Inr s'
          \<and> live_handles s' = [1, 2] \<and> table_ok s' \<and> length (live_handles s') \<le> 7)
   \<and> (\<exists>e1 s1 e2 s2 s3 s4.
          otPlatRadioTransmit 1 no_poll scenario1_receive = Inr (e1, s1)
          \<and> otPlatRadioTransmit 2 no_poll (stack_writes_frame 14 11 True scenario1_psdu s1) = Inr (e2, s2)
          \<and> handle s1 \<noteq> handle s2
          \<and> handleDataConfirm (confirm_of (handle s2) MAC_SUCCESS) True s2 = Inr (0, s3)
          \<and> List.map_filter done_context (trace s3) = List.map_filter done_context (trace s2) @ [2]
          \<and> handleDataConfirm (confirm_of (handle s1) MAC_NO_ACK) True s3 = Inr (0, s4)
          \<and> List.map_filter done_context (trace s4) = List.map_filter done_context (trace s3) @ [1])"
proof -
  have ok: "table_ok scenario1_receive" by code_simp
  note main = intransit_handles_unique [OF ok]
  note runs = main [THEN conjunct1, rule_format]
  note differ = main [THEN conjunct2, THEN conjunct2, THEN conjunct1, rule_format]
  note routed = main [THEN conjunct2, THEN conjunct2, THEN conjunct2, rule_format]
  have "map_sum id live_handles (run two_transmit_actions scenario1_receive) = Inr [1, 2]"
    by code_simp
  then obtain s' where s': "run two_transmit_actions scenario1_receive = Inr s'"
    "live_handles s' = [1, 2]"
    by (cases "run two_transmit_actions scenario1_receive") auto
  from runs [OF s'(1)] have inv: "table_ok s'" "length (live_handles s') \<le> 7" by simp_all
  let ?r1 = "otPlatRadioTransmit 1 no_poll scenario1_receive"
  have "isl ?r1 = False" by code_simp
  then obtain e1 s1 where r1: "?r1 = Inr (e1, s1)" by (cases ?r1) auto
  then have s1: "s1 = snd (projr ?r1)" by simp
  let ?r2 = "otPlatRadioTransmit 2 no_poll
               (stack_writes_frame 14 11 True scenario1_psdu (snd (projr ?r1)))"
  have "isl ?r2 = False" by code_simp
  then obtain e2 s2 where "?r2 = Inr (e2, s2)" by (cases ?r2) auto
  then have r2: "otPlatRadioTransmit 2 no_poll (stack_writes_frame 14 11 True scenario1_psdu s1)
                   = Inr (e2, s2)"
    unfolding s1 .
  have "length (live_handles scenario1_receive) \<le> 5 \<and> \<not> receiveFrame_mutex scenario1_receive
      \<and> sState scenario1_receive \<noteq> kStateDisabled \<and> tx_is_data scenario1_receive
      \<and> tx_is_data (stack_writes_frame 14 11 True scenario1_psdu (snd (projr ?r1)))"
    by code_simp
  then have hyp: "length (live_handles scenario1_receive) \<le> 5"
    "\<not> receiveFrame_mutex scenario1_receive" "sState scenario1_receive \<noteq> kStateDisabled"
    "tx_is_data scenario1_receive"
    "tx_is_data (stack_writes_frame 14 11 True scenario1_psdu s1)"
    unfolding s1 by blast+
  from hyp(3,4) r1 hyp(5) r2
  have h3: "sState scenario1_receive \<noteq> kStateDisabled \<and> tx_is_data scenario1_receive
      \<and> otPlatRadioTransmit 1 no_poll scenario1_receive = Inr (e1, s1)
      \<and> tx_is_data (stack_writes_frame 14 11 True scenario1_psdu s1)
      \<and> otPlatRadioTransmit 2 no_poll (stack_writes_frame 14 11 True scenario1_psdu s1)
          = Inr (e2, s2)"
    by (intro conjI)
  from differ [OF h3] have ne: "handle s1 \<noteq> handle s2" .
  from hyp(1,2) h3
  have h4: "length (live_handles scenario1_receive) \<le> 5 \<and> \<not> receiveFrame_mutex scenario1_receive
      \<and> sState scenario1_receive \<noteq> kStateDisabled \<and> tx_is_data scenario1_receive
      \<and> otPlatRadioTransmit 1 no_poll scenario1_receive = Inr (e1, s1)
      \<and> tx_is_data (stack_writes_frame 14 11 True scenario1_psdu s1)
      \<and> otPlatRadioTransmit 2 no_poll (stack_writes_frame 14 11 True scenario1_psdu s1)
          = Inr (e2, s2)"
    by (intro conjI) simp_all
  from routed [OF h4, of MAC_SUCCESS MAC_NO_ACK] obtain s3 s4 where
    "handleDataConfirm (confirm_of (handle s2) MAC_SUCCESS) True s2 = Inr (0, s3)"
    "List.map_filter done_context (trace s3) = List.map_filter done_context (trace s2) @ [2]"
    "handleDataConfirm (confirm_of (handle s1) MAC_NO_ACK) True s3 = Inr (0, s4)"
    "List.map_filter done_context (trace s4) = List.map_filter done_context (trace s3) @ [1]"
    by blast
  with ok s' inv r1 r2 ne show ?thesis by blast
qed

text \<open>
  Claim C4 at a concrete input. Seven transmits without a confirm fill the table with
  the handles 1 to 7 and the contexts 1 to 7. The eighth transmit returns as well and
  sends its request under handle 8, but \<open>intransit_putFrame\<close> has found no free slot: the
  table is as before, the eighth submission has no record, and \<open>intransit_mutex\<close> is
  still held. The confirm for handle 7 and the confirm for handle 8 then both wait for
  the mutex, and no transmit-done callback has been made; with the mutex released, the
  confirm for handle 8 fails the assertion that a record was found.
\<close>

theorem full_table_confirms_blocked:
  "map_sum id (\<lambda>s. (IntransitHandles s, map mTransmitContext (IntransitPackets s), intransit_mutex s))
       (run (take 13 eight_transmit_actions) scenario1_receive)
     = Inr ([1, 2, 3, 4, 5, 6, 7], [1, 2, 3, 4, 5, 6, 7], False)
   \<and> run eight_transmit_actions scenario1_receive = Inr after_eight_transmits
   \<and> List.map_filter request_handle (trace after_eight_transmits) = [1, 2, 3, 4, 5, 6, 7, 8]
   \<and> IntransitHandles after_eight_transmits = [1, 2, 3, 4, 5, 6, 7]
   \<and> map mTransmitContext (IntransitPackets after_eight_transmits) = [1, 2, 3, 4, 5, 6, 7]
   \<and> intransit_mutex after_eight_transmits = True
   \<and> table_ok after_eight_transmits
   \<and> handleDataConfirm (confirm_of 7 MAC_SUCCESS) True after_eight_transmits = Inl Blocked
   \<and> handleDataConfirm (confirm_of 8 MAC_SUCCESS) True after_eight_transmits = Inl Blocked
   \<and> handleDataConfirm (confirm_of 8 MAC_SUCCESS) True
        (after_eight_transmits\<lparr>intransit_mutex := False\<rparr>) = Inl AssertionFailed
   \<and> List.map_filter done_context (trace after_eight_transmits) = []"
  by code_simp

text \<open>
  Claim C5, as the code has it. With the table in order and its mutex free, the handle
  of a new transmission is the first value after the previous handle, counting modulo
  256, that is not in the table; it is not 0 while a slot is free. \<open>intransit_putFrame\<close>
  stores handle and record in the first free slot and returns 0; with all 7 slots
  taken it returns -1 and both arrays are as before. A transmit of a data frame that
  fits the buffer returns no error, sends its request under that handle and leaves the
  table as \<open>intransit_putFrame\<close> does.
\<close>

theorem handle_allocation:
  assumes ok: "table_ok s" and free: "\<not> intransit_mutex s"
  shows "(\<exists>h k. skip_handles_in_use 256 (handle s + 1) s = Inr h \<and> k < 256
            \<and> h = handle s + 1 + of_nat k \<and> h \<notin> set (IntransitHandles s)
            \<and> (\<forall>j<k. handle s + 1 + of_nat j \<in> set (IntransitHandles s))
            \<and> (0 \<in> set (IntransitHandles s) \<longrightarrow> h \<noteq> 0))
     \<and> (\<forall>h pkt.
           case empty_index (IntransitHandles s) of
             Some i \<Rightarrow> i < 7 \<and> IntransitHandles s ! i = 0
                \<and> (\<forall>j<i. IntransitHandles s ! j \<noteq> 0)
                \<and> intransit_putFrame h pkt s =
                    Inr (0, s\<lparr>IntransitHandles := (IntransitHandles s)[i := h],
                              IntransitPackets := (IntransitPackets s)[i := pkt]\<rparr>)
           | None \<Rightarrow> 0 \<notin> set (IntransitHandles s)
                \<and> (\<exists>s'. intransit_putFrame h pkt s = Inr (- 1, s')
                      \<and> IntransitHandles s' = IntransitHandles s
                      \<and> IntransitPackets s' = IntransitPackets s))
     \<and> (sState s \<noteq> kStateDisabled \<and> tx_is_data s \<and> tx_fits s \<longrightarrow>
           (\<exists>s' r s''. otPlatRadioTransmit c p s = Inr (kThreadError_None, s')
              \<and> skip_handles_in_use 256 (handle s + 1) s = Inr (handle s')
              \<and> List.map_filter request_handle (trace s')
                  = List.map_filter request_handle (trace s) @ [handle s']
              \<and> intransit_putFrame (handle s') ((sTransmitFrame s)\<lparr>mTransmitContext := c\<rparr>) s
                  = Inr (r, s'')
              \<and> IntransitHandles s' = IntransitHandles s''
              \<and> IntransitPackets s' = IntransitPackets s''))"
proof (intro conjI allI impI)
  from ok have len: "length (IntransitHandles s) = 7"
    by (simp add: table_ok_def MAX_INTRANSITS_def)
  then have "length (IntransitHandles s) < 256" by simp
  from skip_total [OF free this, of "handle s + 1"] obtain h where
    h: "skip_handles_in_use 256 (handle s + 1) s = Inr h" by blast
  from skip_Inr [OF free h] obtain k where k: "h \<notin> set (IntransitHandles s)" "k < 256"
    "h = handle s + 1 + of_nat k" "\<forall>j<k. handle s + 1 + of_nat j \<in> set (IntransitHandles s)"
    by blast
  from k(1) have "0 \<in> set (IntransitHandles s) \<longrightarrow> h \<noteq> 0" by auto
  with h k show "\<exists>h k. skip_handles_in_use 256 (handle s + 1) s = Inr h \<and> k < 256
            \<and> h = handle s + 1 + of_nat k \<and> h \<notin> set (IntransitHandles s)
            \<and> (\<forall>j<k. handle s + 1 + of_nat j \<in> set (IntransitHandles s))
            \<and> (0 \<in> set (IntransitHandles s) \<longrightarrow> h \<noteq> 0)" by blast
  fix g pkt
  from putFrame_cases [OF free, of g pkt] len
  show "case empty_index (IntransitHandles s) of
             Some i \<Rightarrow> i < 7 \<and> IntransitHandles s ! i = 0
                \<and> (\<forall>j<i. IntransitHandles s ! j \<noteq> 0)
                \<and> intransit_putFrame g pkt s =
                    Inr (0, s\<lparr>IntransitHandles := (IntransitHandles s)[i := g],
                              IntransitPackets := (IntransitPackets s)[i := pkt]\<rparr>)
           | None \<Rightarrow> 0 \<notin> set (IntransitHandles s)
                \<and> (\<exists>s'. intransit_putFrame g pkt s = Inr (- 1, s')
                      \<and> IntransitHandles s' = IntransitHandles s
                      \<and> IntransitPackets s' = IntransitPackets s)"
    by (simp split: option.splits)
  assume a: "sState s \<noteq> kStateDisabled \<and> tx_is_data s \<and> tx_fits s"
  then have en: "sState s \<noteq> kStateDisabled" and d: "tx_is_data s" and fits: "tx_fits s"
    by simp_all
  from transmit_data [OF h en d fits free, of c p] obtain s' where
    tx: "otPlatRadioTransmit c p s = Inr (kThreadError_None, s')" by blast
  note t = transmit_data_table [OF tx d en]
  let ?pkt = "(sTransmitFrame s)\<lparr>mTransmitContext := c\<rparr>"
  have "\<exists>r s''. intransit_putFrame (handle s') ?pkt s = Inr (r, s'')
          \<and> IntransitHandles s' = IntransitHandles s'' \<and> IntransitPackets s' = IntransitPackets s''"
    using t free by (cases "empty_index (IntransitHandles s)") (simp_all add: intransit_putFrame_def)
  with tx t show "\<exists>s' r s''. otPlatRadioTransmit c p s = Inr (kThreadError_None, s')
              \<and> skip_handles_in_use 256 (handle s + 1) s = Inr (handle s')
              \<and> List.map_filter request_handle (trace s')
                  = List.map_filter request_handle (trace s) @ [handle s']
              \<and> intransit_putFrame (handle s') ?pkt s = Inr (r, s'')
              \<and> IntransitHandles s' = IntransitHandles s''
              \<and> IntransitPackets s' = IntransitPackets s''" by blast
qed

text \<open>
  After a transmit under handle 1 and its confirm the table is empty and 1 is the
  lowest unused non-zero handle; the next transmit is sent under handle 2.
\<close>

theorem lowest_handle_counterexample:
  "map_sum id IntransitHandles (run (take 2 reuse_actions) scenario1_receive) = Inr (replicate 7 0)
   \<and> lowest_unused_handle (replicate 7 0) = Some 1
   \<and> map_sum id (List.map_filter request_handle \<circ> trace) (run reuse_actions scenario1_receive)
       = Inr [1, 2]"
  by code_simp

text \<open>The first transmit after initialisation takes handle 1 and slot 0.\<close>

theorem handle_allocation_witness:
  "table_ok scenario1_receive \<and> \<not> intransit_mutex scenario1_receive
   \<and> skip_handles_in_use 256 (handle scenario1_receive + 1) scenario1_receive = Inr 1
   \<and> (\<exists>s'. otPlatRadioTransmit 42 no_poll scenario1_receive = Inr (kThreadError_None, s')
          \<and> handle s' = 1
          \<and> IntransitHandles s' = [1, 0, 0, 0, 0, 0, 0])"
proof -
  have ok: "table_ok scenario1_receive" and free: "\<not> intransit_mutex scenario1_receive"
    by code_simp+
  have hyp: "sState scenario1_receive \<noteq> kStateDisabled \<and> tx_is_data scenario1_receive
      \<and> tx_fits scenario1_receive" by code_simp
  have e: "empty_index (IntransitHandles scenario1_receive) = Some 0"
    "IntransitHandles scenario1_receive = replicate 7 0" by code_simp+
  have sk: "skip_handles_in_use 256 (handle scenario1_receive + 1) scenario1_receive = Inr 1"
    by code_simp
  from handle_allocation [OF ok free, of 42 no_poll] hyp sk obtain s' r s'' where
    s': "otPlatRadioTransmit 42 no_poll scenario1_receive = Inr (kThreadError_None, s')"
    "handle s' = 1"
    "intransit_putFrame 1 ((sTransmitFrame scenario1_receive)\<lparr>mTransmitContext := 42\<rparr>)
       scenario1_receive = Inr (r, s'')"
    "IntransitHandles s' = IntransitHandles s''"
    by auto
  from s'(3) free e have "IntransitHandles s'' = [1, 0, 0, 0, 0, 0, 0]"
    by (auto simp: intransit_putFrame_def eval_nat_numeral)
  with s' ok free sk show ?thesis by simp
qed

section \<open>Energy scan confirm\<close>

text \<open>
  Claim C7 at a concrete input. An energy scan of channel 11 is requested and the
  confirm carries one result. \<open>handleScanConfirm\<close> calls the energy-scan callback once,
  with \<open>NULL\<close> and with the context of the active scan, and restores the channel; no
  result for channel 11 is reported.
\<close>

theorem energy_scan_confirm_reports_nothing:
  "snd (otPlatRadioEnergyScan 0x00000800 200 7 9 MAC_SUCCESS radio_init) = energy_scan_state
   \<and> map_sum id (trace \<circ> snd) (handleScanConfirm one_result_confirm True energy_scan_state)
       = Inr [MLME_SCAN_request 0 0x00000800 3, EnergyScanCallback 7 0 NullResult,
              MLME_SET_request phyCurrentChannel 0 (Bytes [0])]"
  by code_simp

text \<open>
  No scan is in progress in the initial state, so the request of the energy scan is
  made and accepted; the trace after the confirm has three entries, none of them a
  result for a channel.
\<close>

theorem energy_scan_confirm_reports_nothing_witness:
  "sActiveScanInProgress radio_init = 0 \<and> sEnergyScanInProgress radio_init = 0
   \<and> otPlatRadioEnergyScan 0x00000800 200 7 9 MAC_SUCCESS radio_init
       = (kThreadError_None, energy_scan_state)
   \<and> map_sum id (length \<circ> trace \<circ> snd)
         (handleScanConfirm one_result_confirm True energy_scan_state) = Inr 3"
proof -
  let ?r = "otPlatRadioEnergyScan 0x00000800 200 7 9 MAC_SUCCESS radio_init"
  let ?c = "handleScanConfirm one_result_confirm True energy_scan_state"
  have idle: "sActiveScanInProgress radio_init = 0 \<and> sEnergyScanInProgress radio_init = 0"
    and ok: "fst ?r = kThreadError_None"
    by code_simp+
  from energy_scan_confirm_reports_nothing
  have st: "snd ?r = energy_scan_state"
    and tr: "map_sum id (trace \<circ> snd) ?c
             = Inr [MLME_SCAN_request 0 0x00000800 3, EnergyScanCallback 7 0 NullResult,
                    MLME_SET_request phyCurrentChannel 0 (Bytes [0])]"
    by blast+
  from ok st have "?r = (kThreadError_None, energy_scan_state)"
    by (simp add: prod_eq_iff)
  moreover from tr have "map_sum id (length \<circ> trace \<circ> snd) ?c = Inr 3"
    by (cases ?c) auto
  ultimately show ?thesis using idle by blast
qed

section \<open>Over-long indication\<close>

text \<open>
  Claim C9 at a concrete input. The indication that would give a PDU of 131 bytes is
  rejected with return value 1 and a warning, and nothing is delivered; but the receive
  slot keeps the length 131 and \<open>receiveFrame_mutex\<close> stays locked, so the well-formed
  indication of scenario 3, which is delivered from the initial state, now blocks, and
  so does \<open>PlatformRadioSignal\<close>.
\<close>

theorem overlong_indication_poisons_slot:
  "map_sum id fst (handleDataIndication long_indication True radio_init) = Inr 1
   \<and> trace after_long_indication = [otPlatLog_warn]
   \<and> mLength (sReceiveFrame after_long_indication) = 131
   \<and> receiveFrame_mutex after_long_indication = True
   \<and> handleDataIndication scenario3_indication True after_long_indication = Inl Blocked
   \<and> PlatformRadioSignal after_long_indication = Inl Blocked
   \<and> map_sum id fst (handleDataIndication scenario3_indication True radio_init) = Inr 0"
  by code_simp

section \<open>Device table synchronisation\<close>

lemma device_writes_append:
  "device_writes panid slot (xs @ ys)
     = device_writes panid slot xs @ device_writes panid (slot + of_nat (length xs)) ys"
  by (induction xs arbitrary: slot) (auto simp: add.assoc)

lemma device_writes_length [simp]: "length (device_writes panid slot ds) = length ds"
  by (induction ds arbitrary: slot) auto

lemma device_writes_nth:
  "k < length ds \<Longrightarrow> device_writes panid slot ds ! k =
     MLME_SET_request macDeviceTable (slot + of_nat k)
       (DeviceDescriptor (device_descriptor panid (fst (ds ! k)) (snd (ds ! k))))"
proof (induction ds arbitrary: slot k)
  case Nil
  then show ?case by simp
next
  case (Cons d ds)
  obtain rloc m8 where d: "d = (rloc, m8)" by (cases d)
  show ?case
  proof (cases k)
    case 0
    with d show ?thesis by simp
  next
    case (Suc k')
    with Cons.prems have "k' < length ds" by simp
    from Cons.IH [OF this, of "slot + 1"] Suc d show ?thesis by (simp add: add.assoc)
  qed
qed

lemma sync_children_result:
  "sync_children ot is count s =
     (count + of_nat (length (filter valid_child (map (ot_ChildInfoByIndex ot) is))),
      s\<lparr>trace := trace s @ device_writes (ot_PanId ot) count
          (map (\<lambda>c. (child_mRloc16 c, child_mExtAddress c))
             (filter valid_child (map (ot_ChildInfoByIndex ot) is)))\<rparr>)"
proof (induction "is" arbitrary: count s)
  case Nil
  then show ?case by simp
next
  case (Cons i "is")
  show ?case
  proof (cases "valid_child (ot_ChildInfoByIndex ot i)")
    case False
    then show ?thesis using Cons.IH [of count s] by (simp add: valid_child_def Let_def)
  next
    case True
    then show ?thesis
      using Cons.IH [of "count + 1"]
      by (simp add: valid_child_def Let_def emit_def add.assoc)
  qed
qed

lemma sync_routers_result:
  "sync_routers ot rs count s =
     (count + of_nat (length rs),
      s\<lparr>trace := trace s @ device_writes (ot_PanId ot) count
          (map (\<lambda>r. (router_mRloc16 r, router_mExtAddress r)) rs)\<rparr>)"
proof (induction rs arbitrary: count s)
  case Nil
  then show ?case by simp
next
  case (Cons r rs)
  show ?case using Cons.IH [of "count + 1"] by (simp add: emit_def add.assoc)
qed

lemma sync_keys_result:
  "\<exists>keys. snd (sync_keys hc ot count tKeySeq is storeCount s) = s\<lparr>trace := trace s @ keys\<rparr>
     \<and> list_all is_key_write keys"
proof (induction "is" arbitrary: storeCount s)
  case Nil
  show ?case by (intro exI [of _ "[]"]) simp
next
  case (Cons i "is")
  show ?case
  proof (cases "tKeySeq + ucast i > 0")
    case False
    with Cons.IH [of storeCount s] show ?thesis by simp
  next
    case True
    let ?e = "MLME_SET_request macKeyTable storeCount
                (KeyDescriptor (key_descriptor hc ot count (tKeySeq + ucast i)) (5 - unat count))"
    from Cons.IH [of "storeCount + 1" "emit ?e s"] obtain keys where
      k: "snd (sync_keys hc ot count tKeySeq is (storeCount + 1) (emit ?e s))
            = (emit ?e s)\<lparr>trace := trace (emit ?e s) @ keys\<rparr>" "list_all is_key_write keys"
      by blast
    have "(emit ?e s)\<lparr>trace := trace (emit ?e s) @ keys\<rparr> = s\<lparr>trace := trace s @ (?e # keys)\<rparr>"
      by (simp add: emit_def)
    with k True show ?thesis
      by (intro exI [of _ "?e # keys"]) simp
  qed
qed

lemma device_descriptor_fields:
  "dd_FrameCounter (device_descriptor panid rloc16 m8) = [0, 0, 0, 0]"
  "dd_Exempt (device_descriptor panid rloc16 m8) = 0"
  "dd_PANId (device_descriptor panid rloc16 m8) = PUTLE16 panid"
  "dd_ShortAddress (device_descriptor panid rloc16 m8) = PUTLE16 rloc16"
  "j < 8 \<Longrightarrow> dd_ExtAddress (device_descriptor panid rloc16 m8) ! j = m8 ! (7 - j)"
  "length m8 = 8 \<Longrightarrow> dd_ExtAddress (device_descriptor panid rloc16 m8) = rev m8"
proof -
  show "length m8 = 8 \<Longrightarrow> dd_ExtAddress (device_descriptor panid rloc16 m8) = rev m8"
  proof (rule nth_equalityI)
    assume l: "length m8 = 8"
    then show "length (dd_ExtAddress (device_descriptor panid rloc16 m8)) = length (rev m8)"
      by (simp add: device_descriptor_def)
    fix i assume "i < length (dd_ExtAddress (device_descriptor panid rloc16 m8))"
    then have "i < 8" by (simp add: device_descriptor_def)
    with l show "dd_ExtAddress (device_descriptor panid rloc16 m8) ! i = rev m8 ! i"
      by (simp add: device_descriptor_def rev_nth del: upt_Suc)
  qed
qed (simp_all add: device_descriptor_def del: upt_Suc)

lemma sync_children_all:
  "sync_children ot [0, 1, 2, 3, 4] 0 s =
     (of_nat (length (valid_children ot)),
      s\<lparr>trace := trace s @ device_writes (ot_PanId ot) 0
          (map (\<lambda>c. (child_mRloc16 c, child_mExtAddress c)) (valid_children ot))\<rparr>)"
  using sync_children_result [of ot "[0, 1, 2, 3, 4]" 0 s]
  by (simp only: valid_children_def add_0)

lemma sync_devices_result:
  assumes fit: "length (valid_children ot) + length (ot_NeighborRouters ot) \<le> 5"
  shows "sync_routers ot
           (otGetNeighborRouterInfo ot (5 - fst (sync_children ot [0, 1, 2, 3, 4] 0 s)))
           (fst (sync_children ot [0, 1, 2, 3, 4] 0 s)) (snd (sync_children ot [0, 1, 2, 3, 4] 0 s))
         = (of_nat (length (valid_children ot) + length (ot_NeighborRouters ot)),
            s\<lparr>trace := trace s @ device_writes (ot_PanId ot) 0 (sync_devices ot)\<rparr>)"
proof -
  let ?N = "length (valid_children ot)"
  have N5: "?N \<le> 5" using fit by simp
  have "(5 :: u8) - of_nat ?N = of_nat (5 - ?N)" using N5 by simp
  moreover have "unat (of_nat (5 - ?N) :: u8) = 5 - ?N" by (simp add: unat_of_nat)
  ultimately have "unat (5 - (of_nat ?N :: u8)) = 5 - ?N" by simp
  then have take_all: "otGetNeighborRouterInfo ot (5 - of_nat ?N) = ot_NeighborRouters ot"
    using fit by (simp add: otGetNeighborRouterInfo_def)
  show ?thesis
    unfolding sync_children_all fst_conv snd_conv take_all sync_routers_result
    by (simp add: sync_devices_def device_writes_append)
qed

text \<open>
  Claim C8. After a trigger while the role is not child, with N valid children and M
  router neighbours, N + M at most 5, the calls made are: the N + M device-descriptor
  writes to \<open>macDeviceTable\<close>, slot k for the k-th device, then one write of
  \<open>macDeviceTableEntries\<close> with the value N + M, then key-table writes only (before
  them, the key sequence counter is set to 2 if it was 0). Each descriptor has frame
  counter 0, is not exempt, and carries the extended address byte-reversed.
\<close>

theorem device_table_sync:
  assumes trig: "aFlags AND sync_flags hc \<noteq> 0"
    and role: "ot_DeviceRole ot \<noteq> kDeviceRoleChild"
    and fit: "length (valid_children ot) + length (ot_NeighborRouters ot) \<le> 5"
  shows "\<exists>keys. trace (keyChangeCallback hc ot aFlags s) =
           trace s
           @ (if ot_KeySequenceCounter ot = 0 then [otSetKeySequenceCounter 2] else [])
           @ device_writes (ot_PanId ot) 0 (sync_devices ot)
           @ [MLME_SET_request macDeviceTableEntries 0
                (Bytes [of_nat (length (valid_children ot) + length (ot_NeighborRouters ot))])]
           @ keys
         \<and> list_all is_key_write keys
         \<and> length (device_writes (ot_PanId ot) 0 (sync_devices ot))
             = length (valid_children ot) + length (ot_NeighborRouters ot)
         \<and> (\<forall>k < length (valid_children ot) + length (ot_NeighborRouters ot).
               \<exists>d. device_writes (ot_PanId ot) 0 (sync_devices ot) ! k
                      = MLME_SET_request macDeviceTable (of_nat k) (DeviceDescriptor d)
                 \<and> dd_FrameCounter d = [0, 0, 0, 0] \<and> dd_Exempt d = 0
                 \<and> (\<forall>j<8. dd_ExtAddress d ! j = snd (sync_devices ot ! k) ! (7 - j)))"
proof -
  let ?N = "length (valid_children ot)" and ?M = "length (ot_NeighborRouters ot)"
  let ?pre = "if ot_KeySequenceCounter ot = 0 then [otSetKeySequenceCounter 2] else []"
  let ?dev = "device_writes (ot_PanId ot) 0 (sync_devices ot)"
  let ?count = "of_nat (?N + ?M) :: u8"
  let ?ent = "MLME_SET_request macDeviceTableEntries 0 (Bytes [?count])"
  define s3 where "s3 = s\<lparr>trace := trace s @ ?pre @ ?dev @ [?ent], sCurDeviceTableSize := ?count\<rparr>"
  define tks where "tks = (if ot_KeySequenceCounter ot = 0 then 2 else ot_KeySequenceCounter ot) - 1"
  define K where "K = sync_keys hc ot ?count tks [0, 1, 2] 0 s3"
  have kc: "keyChangeCallback hc ot aFlags s
          = emit (MLME_SET_request macKeyTableEntries 0 (Bytes [fst K])) (snd K)"
    using trig role
    by (cases "ot_KeySequenceCounter ot = 0")
       (simp_all add: keyChangeCallback_def sync_flags_def Let_def split_def
          sync_devices_result [OF fit] emit_def K_def s3_def tks_def
          del: sync_children.simps sync_keys.simps)
  from sync_keys_result [of hc ot ?count tks "[0, 1, 2]" 0 s3] obtain keys where
    keys: "snd K = s3\<lparr>trace := trace s3 @ keys\<rparr>" "list_all is_key_write keys"
    unfolding K_def by blast
  have tr: "trace (keyChangeCallback hc ot aFlags s) =
           trace s @ ?pre @ ?dev @ [?ent]
           @ (keys @ [MLME_SET_request macKeyTableEntries 0 (Bytes [fst K])])"
    by (simp add: kc keys(1) emit_def s3_def)
  have kw: "list_all is_key_write (keys @ [MLME_SET_request macKeyTableEntries 0 (Bytes [fst K])])"
    using keys(2) by simp
  have len: "length ?dev = ?N + ?M" by (simp add: sync_devices_def)
  have each: "\<exists>d. ?dev ! k = MLME_SET_request macDeviceTable (of_nat k) (DeviceDescriptor d)
                 \<and> dd_FrameCounter d = [0, 0, 0, 0] \<and> dd_Exempt d = 0
                 \<and> (\<forall>j<8. dd_ExtAddress d ! j = snd (sync_devices ot ! k) ! (7 - j))"
    if "k < ?N + ?M" for k
  proof -
    from that have "k < length (sync_devices ot)" by (simp add: sync_devices_def)
    from device_writes_nth [OF this, of "ot_PanId ot" 0] show ?thesis
      by (simp add: device_descriptor_fields)
  qed
  from tr kw len each show ?thesis by blast
qed

text \<open>The example: three descriptors in the slots 0, 1, 2 and the entry count 3.\<close>

theorem device_table_sync_witness:
  "0x08 AND sync_flags example_consts \<noteq> 0
   \<and> ot_DeviceRole example_stack \<noteq> kDeviceRoleChild
   \<and> length (valid_children example_stack) = 2 \<and> length (ot_NeighborRouters example_stack) = 1
   \<and> (\<exists>keys. trace (keyChangeCallback example_consts example_stack 0x08 radio_init) =
         [MLME_SET_request macDeviceTable 0 (DeviceDescriptor
            \<lparr>dd_PANId = [0xCE, 0xFA], dd_ShortAddress = [0x01, 0x04],
             dd_ExtAddress = [8, 7, 6, 5, 4, 3, 2, 1], dd_FrameCounter = [0, 0, 0, 0],
             dd_Exempt = 0\<rparr>),
          MLME_SET_request macDeviceTable 1 (DeviceDescriptor
            \<lparr>dd_PANId = [0xCE, 0xFA], dd_ShortAddress = [0x02, 0x04],
             dd_ExtAddress = [9, 0, 0, 0, 0, 0, 0, 0], dd_FrameCounter = [0, 0, 0, 0],
             dd_Exempt = 0\<rparr>),
          MLME_SET_request macDeviceTable 2 (DeviceDescriptor
            \<lparr>dd_PANId = [0xCE, 0xFA], dd_ShortAddress = [0x00, 0x08],
             dd_ExtAddress = [0x18, 0x17, 0x16, 0x15, 0x14, 0x13, 0x12, 0x11],
             dd_FrameCounter = [0, 0, 0, 0], dd_Exempt = 0\<rparr>),
          MLME_SET_request macDeviceTableEntries 0 (Bytes [3])] @ keys
         \<and> list_all is_key_write keys)"
proof -
  have trig: "0x08 AND sync_flags example_consts \<noteq> 0"
    and role: "ot_DeviceRole example_stack \<noteq> kDeviceRoleChild"
    by code_simp+
  have n: "length (valid_children example_stack) = 2" "length (ot_NeighborRouters example_stack) = 1"
    by code_simp+
  then have fit: "length (valid_children example_stack) + length (ot_NeighborRouters example_stack) \<le> 5"
    by simp
  have dev: "device_writes (ot_PanId example_stack) 0 (sync_devices example_stack) =
         [MLME_SET_request macDeviceTable 0 (DeviceDescriptor
            \<lparr>dd_PANId = [0xCE, 0xFA], dd_ShortAddress = [0x01, 0x04],
             dd_ExtAddress = [8, 7, 6, 5, 4, 3, 2, 1], dd_FrameCounter = [0, 0, 0, 0],
             dd_Exempt = 0\<rparr>),
          MLME_SET_request macDeviceTable 1 (DeviceDescriptor
            \<lparr>dd_PANId = [0xCE, 0xFA], dd_ShortAddress = [0x02, 0x04],
             dd_ExtAddress = [9, 0, 0, 0, 0, 0, 0, 0], dd_FrameCounter = [0, 0, 0, 0],
             dd_Exempt = 0\<rparr>),
          MLME_SET_request macDeviceTable 2 (DeviceDescriptor
            \<lparr>dd_PANId = [0xCE, 0xFA], dd_ShortAddress = [0x00, 0x08],
             dd_ExtAddress = [0x18, 0x17, 0x16, 0x15, 0x14, 0x13, 0x12, 0x11],
             dd_FrameCounter = [0, 0, 0, 0], dd_Exempt = 0\<rparr>)]"
    by code_simp
  have z: "trace radio_init = []" "ot_KeySequenceCounter example_stack \<noteq> 0" by code_simp+
  from device_table_sync [OF trig role fit, of radio_init] obtain keys where
    "trace (keyChangeCallback example_consts example_stack 0x08 radio_init) =
       device_writes (ot_PanId example_stack) 0 (sync_devices example_stack)
       @ [MLME_SET_request macDeviceTableEntries 0 (Bytes [3])] @ keys"
    "list_all is_key_write keys"
    using z n by auto
  with dev trig role n show ?thesis by auto
qed

section \<open>Frame codec: footer and round trip\<close>

lemma footerLength_of_cases:
  "footerLength_of level =
     (if unat level mod 4 = 0 then 2 else if unat level mod 4 = 1 then 6
      else if unat level mod 4 = 2 then 10 else 18)"
proof -
  have m: "unat (level mod 4) = unat level mod 4" by (simp add: unat_mod)
  have "unat level mod 4 < 4" by simp
  then consider "unat level mod 4 = 0" | "unat level mod 4 = 1" | "unat level mod 4 = 2"
    | "unat level mod 4 = 3" by linarith
  then show ?thesis
    by cases (simp_all add: footerLength_of_def Let_def m)
qed

lemma mic_length_cases:
  "mic_length n =
     (if n mod 4 = 0 then 0 else if n mod 4 = 1 then 4 else if n mod 4 = 2 then 8 else 16)"
proof -
  have "n mod 4 < 4" by simp
  then consider "n mod 4 = 0" | "n mod 4 = 1" | "n mod 4 = 2" | "n mod 4 = 3" by linarith
  then show ?thesis by cases (simp_all add: mic_length_def Let_def)
qed

lemma footerLength_of_mic: "unat (footerLength_of level) = mic_length (unat level) + 2"
  by (simp add: footerLength_of_cases mic_length_cases)

lemma psdu_of_update [simp]: "psdu_of (psdu_update r b s) r = b"
  by (simp add: psdu_of_def psdu_update_def split: psdu_ref.splits)

lemma psdu_of_more [simp]:
  "psdu_of (s\<lparr>receiveFrame_mutex := m\<rparr>) r = psdu_of s r"
  "psdu_of (s\<lparr>sReceiveFrame := f\<rparr>) r = psdu_of s r"
  "psdu_of (s\<lparr>noiseFloor := n\<rparr>) r = psdu_of s r"
  by (simp_all add: psdu_of_def split: psdu_ref.splits)

lemma psdu_update_twice [simp]: "psdu_update r b (psdu_update r a s) = psdu_update r b s"
  by (simp add: psdu_update_def split: psdu_ref.splits)

lemma rx_psdu_mutex [simp]: "rx_psdu (s\<lparr>receiveFrame_mutex := m\<rparr>) = rx_psdu s"
  by (simp add: rx_psdu_def)

lemma indication_result:
  assumes free: "\<not> receiveFrame_mutex s" and empty: "mLength (sReceiveFrame s) = 0"
  shows "handleDataIndication params True s =
     (if \<not> rx_length params (rx_psdu s) \<le> aMaxPHYPacketSize
      then Inr (1, emit otPlatLog_warn
             ((psdu_update (mPsdu (sReceiveFrame s)) (fst (rx_header params (rx_psdu s))) s)
                \<lparr>receiveFrame_mutex := True,
                 sReceiveFrame := (sReceiveFrame s)\<lparr>mLength := rx_length params (rx_psdu s)\<rparr>\<rparr>))
      else if \<not> unat (rx_headerLength params (rx_psdu s)) + unat (ind_MsduLength params)
                  \<le> length (fst (rx_header params (rx_psdu s)))
      then Inl UndefinedBehaviour
      else Inr (0,
        (emit (otPlatRadioReceiveDone
                 ((sReceiveFrame s)\<lparr>mLength := rx_length params (rx_psdu s),
                    mLqi := ind_MpduLinkQuality params, mChannel := sChannel s,
                    mPower := rssi_of_lqi (ind_MpduLinkQuality params)\<rparr>)
                 (rx_frame params (rx_psdu s)) (sReceiveError s))
           ((psdu_update (mPsdu (sReceiveFrame s)) (rx_frame params (rx_psdu s)) s)
              \<lparr>noiseFloor := rssi_of_lqi (ind_MpduLinkQuality params),
               sState := kStateReceive\<rparr>))
        \<lparr>sReceiveFrame := (sReceiveFrame s)\<lparr>mLength := 0,
             mLqi := ind_MpduLinkQuality params, mChannel := sChannel s,
             mPower := rssi_of_lqi (ind_MpduLinkQuality params)\<rparr>\<rparr>))"
proof (cases "mPsdu (sReceiveFrame s)")
  case TransmitPsdu
  obtain psdu fc hl where h: "rx_header params (sTransmitPsdu s) = (psdu, fc, hl)"
    by (cases "rx_header params (sTransmitPsdu s)")
  show ?thesis
    using free empty h TransmitPsdu
    by (simp add: handleDataIndication_def Let_def rx_psdu_def rx_length_def rx_frame_def
        rx_headerLength_def psdu_of_def psdu_update_def
        PlatformRadioSignal_def emit_def not_le word_less_nat_alt)
next
  case ReceivePsdu
  obtain psdu fc hl where h: "rx_header params (sReceivePsdu s) = (psdu, fc, hl)"
    by (cases "rx_header params (sReceivePsdu s)")
  show ?thesis
    using free empty h ReceivePsdu
    by (simp add: handleDataIndication_def Let_def rx_psdu_def rx_length_def rx_frame_def
        rx_headerLength_def psdu_of_def psdu_update_def
        PlatformRadioSignal_def emit_def not_le word_less_nat_alt)
qed

lemma memcpy_length [simp]:
  "off + n \<le> length dst \<Longrightarrow> n \<le> length src \<Longrightarrow> length (memcpy dst off src n) = length dst"
  by (simp add: memcpy_def)



























lemma last_event_emit [simp]:
  "last_event (emit e s) = Some e"
  "last_event (s\<lparr>sReceiveFrame := f\<rparr>) = last_event s"
  by (simp_all add: last_event_def emit_def)




text \<open>
  Claim C2, as the code has it. In both paths the footer is the MIC length \<open>2 << (level mod 4)\<close>, with 2
  replaced by 0, plus 2 bytes for the FCS: a data transmit that returns has sent a
  request whose \<open>MsduLength\<close> is the frame length minus footer and header, and an
  indication that is delivered gives a frame whose length is \<open>MsduLength\<close> plus footer
  plus header. Level 0 gives a footer of 2, level 5 a footer of 6 and level 6 a footer
  of 10.
\<close>

theorem footer_length:
  assumes tx: "otPlatRadioTransmit c poll s = Inr (e, s')"
    and en: "sState s \<noteq> kStateDisabled" and dat: "tx_is_data s"
    and free: "\<not> receiveFrame_mutex t" and empty: "mLength (sReceiveFrame t) = 0"
    and rx: "handleDataIndication params True t = Inr (0, t')"
  shows "unat (footerLength_of level) = mic_length (unat level) + 2
     \<and> mic_length (unat level) \<in> {0, 4, 8, 16}
     \<and> footerLength_of 0 = 2 \<and> footerLength_of 5 = 6 \<and> footerLength_of 6 = 10
     \<and> (\<exists>req. last_event s' = Some (MCPS_DATA_request req (tx_secSpec s))
           \<and> MsduLength req = mLength (sTransmitFrame s)
                - footerLength_of (SecurityLevel (tx_secSpec s)) - tx_headerLength s)
     \<and> (\<exists>pkt buf. last_event t' = Some (otPlatRadioReceiveDone pkt buf (sReceiveError t))
           \<and> mLength pkt = ind_MsduLength params
                + footerLength_of (SecurityLevel (ind_Sec params))
                + rx_headerLength params (rx_psdu t))"
proof -
  from transmit_data_elim [OF tx en dat]
  have h: "skip_handles_in_use 256 (handle s + 1) s = Inr (handle s')"
    and fits: "tx_fits s" and mfree: "\<not> intransit_mutex s" by simp_all
  from transmit_data [OF h en dat fits mfree, of c poll] tx
  have "trace s' = trace (setChannel (mChannel (sTransmitFrame s)) s)
                    @ [MCPS_DATA_request (tx_request (handle s') s) (tx_secSpec s)]"
    by auto
  then have "last_event s' = Some (MCPS_DATA_request (tx_request (handle s') s) (tx_secSpec s))"
    by (simp add: last_event_def)
  moreover have "MsduLength (tx_request (handle s') s) = mLength (sTransmitFrame s)
                - footerLength_of (SecurityLevel (tx_secSpec s)) - tx_headerLength s"
    by (simp add: tx_request_def tx_msduLength_def)
  ultimately have sent: "\<exists>req. last_event s' = Some (MCPS_DATA_request req (tx_secSpec s))
           \<and> MsduLength req = mLength (sTransmitFrame s)
                - footerLength_of (SecurityLevel (tx_secSpec s)) - tx_headerLength s"
    by blast
  from rx indication_result [OF free empty, of params]
  have "last_event t' = Some (otPlatRadioReceiveDone
          ((sReceiveFrame t)\<lparr>mLength := rx_length params (rx_psdu t),
              mLqi := ind_MpduLinkQuality params, mChannel := sChannel t,
              mPower := rssi_of_lqi (ind_MpduLinkQuality params)\<rparr>)
          (rx_frame params (rx_psdu t)) (sReceiveError t))"
    by (auto split: if_splits)
  then have rcv: "\<exists>pkt buf. last_event t' = Some (otPlatRadioReceiveDone pkt buf (sReceiveError t))
           \<and> mLength pkt = ind_MsduLength params
                + footerLength_of (SecurityLevel (ind_Sec params))
                + rx_headerLength params (rx_psdu t)"
    by (simp add: rx_length_def)
  have "mic_length (unat level) \<in> {0, 4, 8, 16}"
    by (simp add: mic_length_cases)
  moreover have "footerLength_of 0 = 2 \<and> footerLength_of 5 = 6 \<and> footerLength_of 6 = 10"
    by (simp add: footerLength_of_cases)
  ultimately show ?thesis
    using footerLength_of_mic [of level] sent rcv by blast
qed

text \<open>
  The secured frame of scenario 2 with a length of 27, which is header 15, payload 2
  and a footer of 10: the level is 5, the footer computed is 6, and the request has an
  \<open>MsduLength\<close> of 6.
\<close>

theorem footer_level5_counterexample:
  "tx_headerLength scenario2_state = 15 \<and> mLength (sTransmitFrame scenario2_state) = 27
   \<and> SecurityLevel (tx_secSpec scenario2_state) = 5
   \<and> footerLength_of 5 = 6
   \<and> map_sum id (last_event \<circ> snd) (otPlatRadioTransmit 42 no_poll scenario2_state)
       = Inr (Some (MCPS_DATA_request scenario2_request scenario2_security))
   \<and> MsduLength scenario2_request = 6"
  by code_simp

text \<open>Scenario 2 sent, and scenario 3 received.\<close>

theorem footer_length_witness:
  "sState scenario2_state \<noteq> kStateDisabled \<and> tx_is_data scenario2_state
   \<and> \<not> receiveFrame_mutex receiver \<and> mLength (sReceiveFrame receiver) = 0
   \<and> (\<exists>e s' t'. otPlatRadioTransmit 42 no_poll scenario2_state = Inr (e, s')
         \<and> handleDataIndication scenario3_indication True receiver = Inr (0, t')
         \<and> (\<exists>req. last_event s' = Some (MCPS_DATA_request req scenario2_security)
               \<and> MsduLength req = 27 - 6 - 15)
         \<and> (\<exists>pkt buf. last_event t' = Some (otPlatRadioReceiveDone pkt buf kThreadError_None)
               \<and> mLength pkt = 2 + 2 + 9))
   \<and> unat (footerLength_of 7) = mic_length 7 + 2 \<and> mic_length 7 = 16"
proof -
  have hyp: "sState scenario2_state \<noteq> kStateDisabled" "tx_is_data scenario2_state"
    "\<not> receiveFrame_mutex receiver" "mLength (sReceiveFrame receiver) = 0"
    by code_simp+
  let ?r = "otPlatRadioTransmit 42 no_poll scenario2_state"
  have "isl ?r = False" by code_simp
  then obtain e s' where r: "?r = Inr (e, s')" by (cases ?r) auto
  let ?q = "handleDataIndication scenario3_indication True receiver"
  have "isl ?q = False \<and> fst (projr ?q) = 0" by code_simp
  then obtain t' where q: "?q = Inr (0, t')" by (cases ?q) auto
  have v: "tx_secSpec scenario2_state = scenario2_security"
    "mLength (sTransmitFrame scenario2_state) = 27"
    "footerLength_of (SecurityLevel scenario2_security) = 6"
    "tx_headerLength scenario2_state = 15"
    "sReceiveError receiver = kThreadError_None"
    "ind_MsduLength scenario3_indication = 2"
    "footerLength_of (SecurityLevel (ind_Sec scenario3_indication)) = 2"
    "rx_headerLength scenario3_indication (rx_psdu receiver) = 9"
    "mic_length 7 = 16"
    by code_simp+
  have u: "unat (7 :: u8) = 7" by simp
  from footer_length [OF r hyp(1,2,3,4) q, of 7] r q hyp show ?thesis
    unfolding v u by auto
qed

end
